theory Spec2Isabelle
  imports Complex_Main "HOL-Library.Word" "HOL-Library.Multiset" "HOL-Library.Log_Nat"
begin

unbundle bit_operations_syntax

section \<open>JavaScript values and completions\<close>

text \<open>
  The repository is TypeScript running on a JavaScript engine. A call either returns a
  value or throws; an awaited promise either resolves or rejects. Both are a
  \<open>completion\<close>.

  Numbers the code counts with (counters, sequence numbers, seeds, the generator's
  state) are \<open>nat\<close> or \<open>int\<close>: doubles are exact on integers below \<open>2^53\<close>. Rates,
  draws and delays are \<open>real\<close>: a double is the real number it denotes, and an
  operation on doubles that need not be exact is rounded explicitly (next section).
\<close>

datatype js_error = TypeError | SyntaxError | Error string

datatype 'a completion = Returned 'a | Thrown js_error

text \<open>
  A payload is an arbitrary JavaScript value. The constructors cover what
  \<open>JSON.stringify\<close> distinguishes: \<open>undefined\<close> (also an absent property),
  \<open>null\<close>, booleans, integral numbers (below \<open>2^53\<close> in magnitude, which print
  as their decimal digits), strings (code units below 256), BigInts, arrays, and
  objects as the list of their own enumerable properties in enumeration order. Cyclic
  values, on which \<open>JSON.stringify\<close> throws as it does on a BigInt, have no
  representation here.
\<close>

datatype js_value =
    JUndefined
  | JNull
  | JBool bool
  | JInt int
  | JString string
  | JBigInt int
  | JArray "js_value list"
  | JObject "(string \<times> js_value) list"

section \<open>Doubles\<close>

text \<open>
  A JavaScript number is an IEEE 754 double, and \<open>*\<close>, \<open>/\<close> and \<open>+\<close> return the double
  nearest to the exact result, a tie going to the even significand. \<open>double x\<close> is that
  nearest double: \<open>x\<close> is scaled by the unit in the last place of its binade
  \<open>[2^e, 2^(e+1))\<close>, which is \<open>2^(e-52)\<close>, and rounded to an integer. A decimal literal
  such as \<open>0.3\<close> is the double nearest to it. \<open>%\<close>, \<open>Math.floor\<close> and \<open>Math.max\<close> are
  exact. The exponent is not bounded: overflow to \<open>Infinity\<close>, subnormal numbers (below
  \<open>2^-1022\<close>) and \<open>NaN\<close> have no representation here.

  The seeded generator, the delay of a delivery and the index of the shuffle are
  computed with this rounding. Two places keep the exact value. The default rates
  \<open>0.1\<close> and \<open>0.05\<close> are the rationals: a draw is below the rational exactly when it
  is below the double (\<open>draw_below_default_rates\<close>). The delay of a duplicate,
  \<open>50 + Math.random() * 200\<close>, is the exact sum: the double the code computes is within
  \<open>2^-44\<close> of it and in the same interval \<open>[50, 250)\<close> (\<open>duplicate_delay_rounding\<close>,
  \<open>duplicate_delay_range\<close>).
\<close>

definition round_even :: "real \<Rightarrow> int" where
  "round_even y =
     (let f = \<lfloor>y\<rfloor>; r = y - of_int f
      in if r < 1 / 2 then f else if 1 / 2 < r then f + 1 else if even f then f else f + 1)"

definition binary_exponent :: "real \<Rightarrow> int" where
  "binary_exponent x =
     (if 1 \<le> \<bar>x\<bar> then bitlen \<lfloor>\<bar>x\<bar>\<rfloor> - 1 else - bitlen (\<lceil>1 / \<bar>x\<bar>\<rceil> - 1))"

definition double :: "real \<Rightarrow> real" where
  "double x =
     (if x = 0 then 0
      else let ulp = 2 powi (binary_exponent x - 52)
           in of_int (round_even (x / ulp)) * ulp)"

section \<open>types.ts\<close>

text \<open>
  \<open>MessageEnvelope\<close> as it arrives from \<open>JSON.parse\<close>: a property may be absent
  (\<open>None\<close>, reading it gives \<open>undefined\<close>); a property that is present has the
  type the interface declares. \<open>MessageType\<close> is a string enum. The payload is any
  value. In \<open>ChaosConfig\<close>, \<open>reorderWindow\<close> and \<open>seed\<close> are integers (which a double
  holds exactly).
\<close>

type_synonym MessageType = string

record MessageEnvelope =
  messageId :: "string option"
  sequenceNumber :: "int option"
  sourceNode :: "string option"
  destinationNode :: "string option"
  messageType :: "MessageType option"
  timestamp :: "int option"
  payload :: js_value
  checksum :: "string option"

record ChaosConfig =
  dropRate :: real
  duplicateRate :: real
  maxDelayMs :: real
  reorderWindow :: int
  seed :: int
  enabled :: bool

text \<open>
  \<open>Partial<ChaosConfig>\<close> where every property is absent (\<open>None\<close>) or holds a value of
  its type: the configurations the constructor is modelled on.
\<close>

record PartialChaosConfig =
  dropRate_opt :: "real option"
  duplicateRate_opt :: "real option"
  maxDelayMs_opt :: "real option"
  reorderWindow_opt :: "int option"
  seed_opt :: "int option"
  enabled_opt :: "bool option"

text \<open>
  \<open>Partial<ChaosConfig>\<close> in full: TypeScript also accepts a property that is present
  and holds \<open>undefined\<close>, as in \<open>{seed: undefined}\<close> or \<open>{seed: options.seed}\<close>
  with no seed in the options. A property of an object literal is \<open>Absent\<close> or
  \<open>Present\<close> with what it holds, \<open>None\<close> for \<open>undefined\<close>. An object spread copies
  such a property like any other, so the configuration object a proxy stores can hold
  \<open>undefined\<close> in a property as well: \<open>ConfigObject\<close>.
\<close>

datatype 'a property = Absent | Present "'a option"

record ConfigUpdate =
  dropRate_arg :: "real property"
  duplicateRate_arg :: "real property"
  maxDelayMs_arg :: "real property"
  reorderWindow_arg :: "int property"
  seed_arg :: "int property"
  enabled_arg :: "bool property"

record ConfigObject =
  dropRate_of :: "real option"
  duplicateRate_of :: "real option"
  maxDelayMs_of :: "real option"
  reorderWindow_of :: "int option"
  seed_of :: "int option"
  enabled_of :: "bool option"

record MessageStats =
  sent :: nat
  received :: nat
  dropped :: nat
  duplicated :: nat
  delayed :: nat
  reordered :: nat

section \<open>Callbacks\<close>

text \<open>
  \<open>sendFn\<close> and the message handlers are callbacks of the embedding application. They
  act on the world outside this code (the transport, the application), of an arbitrary
  type \<open>'w\<close>, and complete or throw. Calls are modelled one at a time: a call has
  returned before the next one starts, as when the caller awaits each. A handler
  receives an envelope, or whatever else JavaScript passes in its place: the reorder
  buffer's copy can hold \<open>undefined\<close> (\<open>None\<close>) at a position.
\<close>

type_synonym 'w sendFn = "'w \<Rightarrow> MessageEnvelope completion \<times> 'w"

type_synonym 'w MessageHandler = "MessageEnvelope option \<Rightarrow> 'w \<Rightarrow> unit completion \<times> 'w"

section \<open>message-utils.ts\<close>

text \<open>
  \<open>Number.prototype.toString(radix)\<close> on an integer: the digits of the magnitude, with
  a minus sign in front when it is negative.
\<close>

definition digit_char :: "nat \<Rightarrow> char" where
  "digit_char n = ''0123456789abcdef'' ! n"

function digits_radix :: "nat \<Rightarrow> nat \<Rightarrow> string" where
  "digits_radix b n =
     (if n < b \<or> b < 2 then [digit_char n]
      else digits_radix b (n div b) @ [digit_char (n mod b)])"
  by pat_completeness auto
termination
  by (relation "measure snd") auto

definition number_toString :: "nat \<Rightarrow> int \<Rightarrow> string" where
  "number_toString radix n =
     (if n < 0 then ''-'' @ digits_radix radix (nat (- n)) else digits_radix radix (nat n))"

text \<open>
  \<open>JSON.stringify\<close>. It returns \<open>undefined\<close> (\<open>None\<close>) for \<open>undefined\<close>, throws a
  TypeError for a BigInt, writes \<open>undefined\<close> inside an array as \<open>null\<close> and leaves a
  property whose value is \<open>undefined\<close> out of an object. Strings are quoted, with the
  escapes of the JSON grammar.
\<close>

definition json_escape :: "char \<Rightarrow> string" where
  "json_escape c =
     (let n = (of_char c :: nat) in
      if n = 34 then [CHR 0x5C, CHR 0x22]
      else if n = 92 then [CHR 0x5C, CHR 0x5C]
      else if n = 8 then [CHR 0x5C, CHR ''b'']
      else if n = 9 then [CHR 0x5C, CHR ''t'']
      else if n = 10 then [CHR 0x5C, CHR ''n'']
      else if n = 12 then [CHR 0x5C, CHR ''f'']
      else if n = 13 then [CHR 0x5C, CHR ''r'']
      else if n < 32 then
        [CHR 0x5C, CHR ''u'', CHR ''0'', CHR ''0'', digit_char (n div 16), digit_char (n mod 16)]
      else [c])"

definition json_quote :: "string \<Rightarrow> string" where
  "json_quote s = [CHR 0x22] @ concat (map json_escape s) @ [CHR 0x22]"

fun join_comma :: "string list \<Rightarrow> string" where
  "join_comma [] = []"
| "join_comma [x] = x"
| "join_comma (x # y # ys) = x @ '','' @ join_comma (y # ys)"

fun JSON_stringify :: "js_value \<Rightarrow> string option completion"
  and stringify_elements :: "js_value list \<Rightarrow> string list completion"
  and stringify_properties :: "(string \<times> js_value) list \<Rightarrow> string list completion" where
  "JSON_stringify JUndefined = Returned None"
| "JSON_stringify JNull = Returned (Some ''null'')"
| "JSON_stringify (JBool b) = Returned (Some (if b then ''true'' else ''false''))"
| "JSON_stringify (JInt n) = Returned (Some (number_toString 10 n))"
| "JSON_stringify (JString s) = Returned (Some (json_quote s))"
| "JSON_stringify (JBigInt n) = Thrown TypeError"
| "JSON_stringify (JArray xs) =
     (case stringify_elements xs of
        Thrown e \<Rightarrow> Thrown e
      | Returned parts \<Rightarrow> Returned (Some (''['' @ join_comma parts @ '']'')))"
| "JSON_stringify (JObject ps) =
     (case stringify_properties ps of
        Thrown e \<Rightarrow> Thrown e
      | Returned parts \<Rightarrow> Returned (Some (''{'' @ join_comma parts @ ''}'')))"
| "stringify_elements [] = Returned []"
| "stringify_elements (x # xs) =
     (case JSON_stringify x of
        Thrown e \<Rightarrow> Thrown e
      | Returned r \<Rightarrow>
          (case stringify_elements xs of
             Thrown e \<Rightarrow> Thrown e
           | Returned rs \<Rightarrow> Returned ((case r of None \<Rightarrow> ''null'' | Some t \<Rightarrow> t) # rs)))"
| "stringify_properties [] = Returned []"
| "stringify_properties ((k, v) # ps) =
     (case JSON_stringify v of
        Thrown e \<Rightarrow> Thrown e
      | Returned r \<Rightarrow>
          (case stringify_properties ps of
             Thrown e \<Rightarrow> Thrown e
           | Returned rs \<Rightarrow>
               Returned ((case r of None \<Rightarrow> [] | Some t \<Rightarrow> [json_quote k @ '':'' @ t]) @ rs)))"

text \<open>
  \<open>calculateChecksum\<close>. The loop \<open>hash = ((hash << 5) - hash) + char; hash = hash & hash\<close>
  keeps \<open>hash\<close> a 32-bit two's complement integer, so it is arithmetic on \<open>32 word\<close>,
  read as signed at the end. \<open>payloadStr.length\<close> throws a TypeError when
  \<open>JSON.stringify\<close> has returned \<open>undefined\<close>.
\<close>

definition hash_step :: "32 word \<Rightarrow> char \<Rightarrow> 32 word" where
  "hash_step hash c = (push_bit 5 hash - hash) + of_nat (of_char c)"

definition calculateChecksum :: "js_value \<Rightarrow> string completion" where
  "calculateChecksum p =
     (case JSON_stringify p of
        Thrown e \<Rightarrow> Thrown e
      | Returned None \<Rightarrow> Thrown TypeError
      | Returned (Some payloadStr) \<Rightarrow>
          Returned (number_toString 16 (sint (foldl hash_step 0 payloadStr))))"


text \<open>
  \<open>sequenceCounters\<close> is a static \<open>Map\<close>; \<open>uuidv4()\<close> and \<open>Date.now()\<close> are inputs
  of \<open>createMessage\<close>. The counter is stored before the envelope is built, so it has
  advanced also when \<open>calculateChecksum\<close> throws. \<open>get(sourceNode) || 0\<close> is 0 for an
  absent key and for a stored 0.
\<close>

type_synonym sequenceCounters = "string \<rightharpoonup> int"

definition getSequenceCounter :: "sequenceCounters \<Rightarrow> string \<Rightarrow> int" where
  "getSequenceCounter counters src =
     (case counters src of None \<Rightarrow> 0 | Some n \<Rightarrow> n)"

definition resetSequenceCounter :: "sequenceCounters \<Rightarrow> string \<Rightarrow> sequenceCounters" where
  "resetSequenceCounter counters src = counters(src := None)"

definition createMessage ::
  "sequenceCounters \<Rightarrow> string \<Rightarrow> int \<Rightarrow> string \<Rightarrow> MessageType \<Rightarrow> js_value \<Rightarrow> string option
     \<Rightarrow> MessageEnvelope completion \<times> sequenceCounters" where
  "createMessage counters uuid now src mtype pl dest =
     (let currentSeq = (case counters src of None \<Rightarrow> 0 | Some n \<Rightarrow> n);
          seq = currentSeq + 1;
          counters' = counters(src \<mapsto> seq)
      in case calculateChecksum pl of
           Thrown e \<Rightarrow> (Thrown e, counters')
         | Returned c \<Rightarrow>
             (Returned
                \<lparr>messageId = Some uuid, sequenceNumber = Some seq, sourceNode = Some src,
                 destinationNode = Some (case dest of None \<Rightarrow> [] | Some d \<Rightarrow> d),
                 messageType = Some mtype, timestamp = Some now, payload = pl,
                 checksum = Some c\<rparr>,
              counters'))"

text \<open>
  \<open>validateMessage\<close>. \<open>!x\<close> holds of an absent property and of the empty string;
  \<open>undefined <= 0\<close> is false, so an absent sequence number passes the second check.
\<close>

definition falsy :: "string option \<Rightarrow> bool" where
  "falsy v = (case v of None \<Rightarrow> True | Some s \<Rightarrow> s = [])"

definition validateMessage :: "MessageEnvelope \<Rightarrow> bool completion" where
  "validateMessage envelope =
     (if falsy (messageId envelope) \<or> falsy (sourceNode envelope) \<or> falsy (messageType envelope)
      then Returned False
      else if (case sequenceNumber envelope of None \<Rightarrow> False | Some n \<Rightarrow> n \<le> 0)
      then Returned False
      else
        (case calculateChecksum (payload envelope) of
           Thrown e \<Rightarrow> Thrown e
         | Returned expectedChecksum \<Rightarrow>
             if checksum envelope \<noteq> Some expectedChecksum then Returned False
             else Returned True))"

definition isStaleMessage :: "MessageEnvelope \<Rightarrow> int \<Rightarrow> int \<Rightarrow> bool" where
  "isStaleMessage newMessage currentMaxSeq windowSize =
     (case sequenceNumber newMessage of
        None \<Rightarrow> False
      | Some n \<Rightarrow> n < currentMaxSeq - windowSize)"

definition isDuplicateMessage :: "string option \<Rightarrow> string option list \<Rightarrow> bool" where
  "isDuplicateMessage mid seenMessageIds = (mid \<in> set seenMessageIds)"

section \<open>kafka-consumer.ts\<close>

text \<open>
  What \<open>handleMessage\<close> finds in \<open>payload.message.value\<close>: nothing or the empty
  string, text that \<open>JSON.parse\<close> rejects, the JSON text \<open>null\<close>, or an object read as
  an envelope. \<open>seenMessageIds\<close> is a JavaScript \<open>Set\<close>, which iterates in insertion
  order: it is the list of its elements, oldest first, without repetition.
\<close>

datatype wire_value = NoValue | Unparsable | ParsedNull | Parsed MessageEnvelope

datatype handled =
    SkippedEmpty
  | SkippedInvalid
  | SkippedDuplicate
  | NoHandler
  | Handled
  | ErrorLogged js_error

record 'w KafkaConsumer =
  messageHandlers :: "MessageType option \<Rightarrow> 'w MessageHandler option"
  seenMessageIds :: "string option list"
  maxSeenIds :: nat

definition new_KafkaConsumer :: "'w KafkaConsumer" where
  "new_KafkaConsumer = \<lparr>messageHandlers = (\<lambda>t. None), seenMessageIds = [], maxSeenIds = 10000\<rparr>"

definition onMessage :: "MessageType \<Rightarrow> 'w MessageHandler \<Rightarrow> 'w KafkaConsumer \<Rightarrow> 'w KafkaConsumer" where
  "onMessage mtype handler c = c\<lparr>messageHandlers := (messageHandlers c)(Some mtype \<mapsto> handler)\<rparr>"

definition set_add :: "'a list \<Rightarrow> 'a \<Rightarrow> 'a list" where
  "set_add xs x = (if x \<in> set xs then xs else xs @ [x])"

definition set_delete :: "'a list \<Rightarrow> 'a \<Rightarrow> 'a list" where
  "set_delete xs x = removeAll x xs"

definition handleMessage ::
  "'w KafkaConsumer \<Rightarrow> wire_value \<Rightarrow> 'w \<Rightarrow> handled \<times> 'w KafkaConsumer \<times> 'w" where
  "handleMessage c v w =
     (case v of
        NoValue \<Rightarrow> (SkippedEmpty, c, w)
      | Unparsable \<Rightarrow> (ErrorLogged SyntaxError, c, w)
      | ParsedNull \<Rightarrow> (ErrorLogged TypeError, c, w)
      | Parsed envelope \<Rightarrow>
          (case validateMessage envelope of
             Thrown e \<Rightarrow> (ErrorLogged e, c, w)
           | Returned False \<Rightarrow> (SkippedInvalid, c, w)
           | Returned True \<Rightarrow>
               if isDuplicateMessage (messageId envelope) (seenMessageIds c)
               then (SkippedDuplicate, c, w)
               else
                 let seen1 = set_add (seenMessageIds c) (messageId envelope);
                     seen2 = (if length seen1 > maxSeenIds c
                              then foldl set_delete seen1 (take 1000 seen1)
                              else seen1);
                     c' = c\<lparr>seenMessageIds := seen2\<rparr>
                 in
                 (case messageHandlers c (messageType envelope) of
                    None \<Rightarrow> (NoHandler, c', w)
                  | Some handler \<Rightarrow>
                      (case handler (Some envelope) w of
                         (Returned x, w') \<Rightarrow> (Handled, c', w')
                       | (Thrown e, w') \<Rightarrow> (ErrorLogged e, c', w')))))"

definition getSeenMessageCount :: "'w KafkaConsumer \<Rightarrow> nat" where
  "getSeenMessageCount c = length (seenMessageIds c)"

section \<open>chaos-proxy.ts: the seeded generator\<close>

text \<open>
  JavaScript's \<open>%\<close> is the remainder of the division that truncates towards zero: its
  result has the sign of the dividend. HOL's \<open>mod\<close> has the sign of the divisor.
\<close>

definition js_rem :: "int \<Rightarrow> int \<Rightarrow> int" where
  "js_rem a b = sgn a * (\<bar>a\<bar> mod \<bar>b\<bar>)"

text \<open>
  \<open>createSeededRandom(seed)\<close> returns a closure over the variable \<open>state\<close>, which
  starts as the seed. The closure is modelled by that variable; calling the closure is
  \<open>seeded_random\<close>, which returns the draw and the new value of the variable.

  \<open>state * 9301\<close> and \<open>+ 49297\<close> are rounded (they are exact while the state is below
  \<open>2^39\<close>, so from the second call on at the latest) and give an integer again; \<open>%\<close>
  is exact; the quotient \<open>state / 233280\<close> is rounded.
\<close>

definition createSeededRandom :: "int \<Rightarrow> int" where
  "createSeededRandom sd = sd"

definition seeded_random :: "int \<Rightarrow> real \<times> int" where
  "seeded_random state =
     (let state' = js_rem \<lfloor>double (double (real_of_int state * 9301) + 49297)\<rfloor> 233280
      in (double (real_of_int state' / 233280), state'))"

section \<open>chaos-proxy.ts: ChaosProxy\<close>

text \<open>
  The fields of a \<open>ChaosProxy\<close>. The calls that send and receive read a configuration
  in which every property holds a value of its declared type, a \<open>ChaosConfig\<close>;
  \<open>updateConfig\<close> is modelled on the configuration object in full, a \<open>ConfigObject\<close>.
\<close>

record 'c ChaosProxy_of =
  config :: 'c
  stats :: MessageStats
  random_state :: int
  messageBuffer :: "MessageEnvelope list"

type_synonym ChaosProxy = "ChaosConfig ChaosProxy_of"

definition default_config :: ChaosConfig where
  "default_config =
     \<lparr>dropRate = 1 / 10, duplicateRate = 5 / 100, maxDelayMs = 1000, reorderWindow = 5,
      seed = 12345, enabled = True\<rparr>"

definition zero_stats :: MessageStats where
  "zero_stats = \<lparr>sent = 0, received = 0, dropped = 0, duplicated = 0, delayed = 0, reordered = 0\<rparr>"

text \<open>
  The object spread \<open>{...c, ...p}\<close>: a property present in \<open>p\<close> wins, whatever it
  holds. \<open>spread_object\<close> is the spread in full; \<open>spread\<close> is the same on
  configurations whose properties are absent or hold a value (\<open>spread_object_typed\<close>
  below).
\<close>

definition merge :: "'a option \<Rightarrow> 'a property \<Rightarrow> 'a option" where
  "merge old p = (case p of Absent \<Rightarrow> old | Present v \<Rightarrow> v)"

definition spread_object :: "ConfigObject \<Rightarrow> ConfigUpdate \<Rightarrow> ConfigObject" where
  "spread_object c p =
     \<lparr>dropRate_of = merge (dropRate_of c) (dropRate_arg p),
      duplicateRate_of = merge (duplicateRate_of c) (duplicateRate_arg p),
      maxDelayMs_of = merge (maxDelayMs_of c) (maxDelayMs_arg p),
      reorderWindow_of = merge (reorderWindow_of c) (reorderWindow_arg p),
      seed_of = merge (seed_of c) (seed_arg p),
      enabled_of = merge (enabled_of c) (enabled_arg p)\<rparr>"

definition spread :: "ChaosConfig \<Rightarrow> PartialChaosConfig \<Rightarrow> ChaosConfig" where
  "spread c p =
     \<lparr>dropRate = (case dropRate_opt p of Some v \<Rightarrow> v | None \<Rightarrow> dropRate c),
      duplicateRate = (case duplicateRate_opt p of Some v \<Rightarrow> v | None \<Rightarrow> duplicateRate c),
      maxDelayMs = (case maxDelayMs_opt p of Some v \<Rightarrow> v | None \<Rightarrow> maxDelayMs c),
      reorderWindow = (case reorderWindow_opt p of Some v \<Rightarrow> v | None \<Rightarrow> reorderWindow c),
      seed = (case seed_opt p of Some v \<Rightarrow> v | None \<Rightarrow> seed c),
      enabled = (case enabled_opt p of Some v \<Rightarrow> v | None \<Rightarrow> enabled c)\<rparr>"

definition no_config :: PartialChaosConfig where
  "no_config =
     \<lparr>dropRate_opt = None, duplicateRate_opt = None, maxDelayMs_opt = None,
      reorderWindow_opt = None, seed_opt = None, enabled_opt = None\<rparr>"

definition constructor :: "PartialChaosConfig \<Rightarrow> ChaosProxy" where
  "constructor p =
     (let c = spread default_config p
      in \<lparr>config = c, stats = zero_stats, random_state = createSeededRandom (seed c),
          messageBuffer = []\<rparr>)"

definition getStats :: "ChaosProxy \<Rightarrow> MessageStats" where
  "getStats px = stats px"

definition resetStats :: "ChaosProxy \<Rightarrow> ChaosProxy" where
  "resetStats px = px\<lparr>stats := zero_stats\<rparr>"

text \<open>
  \<open>updateConfig\<close>: the spread, then \<open>if (newConfig.seed !== undefined)\<close> the generator
  is replaced. Reading an absent property gives \<open>undefined\<close>, as does reading one that
  holds \<open>undefined\<close>.
\<close>

definition updateConfig :: "ConfigUpdate \<Rightarrow> ConfigObject ChaosProxy_of \<Rightarrow> ConfigObject ChaosProxy_of" where
  "updateConfig newConfig px =
     (let px1 = px\<lparr>config := spread_object (config px) newConfig\<rparr>
      in case seed_arg newConfig of
           Present (Some sd) \<Rightarrow> px1\<lparr>random_state := createSeededRandom sd\<rparr>
         | Present None \<Rightarrow> px1
         | Absent \<Rightarrow> px1)"

definition getConfig :: "'c ChaosProxy_of \<Rightarrow> 'c" where
  "getConfig px = config px"

text \<open>
  A configuration, a partial configuration and a proxy of the typed kind as the objects
  they are.
\<close>

definition object_of :: "ChaosConfig \<Rightarrow> ConfigObject" where
  "object_of c =
     \<lparr>dropRate_of = Some (dropRate c), duplicateRate_of = Some (duplicateRate c),
      maxDelayMs_of = Some (maxDelayMs c), reorderWindow_of = Some (reorderWindow c),
      seed_of = Some (seed c), enabled_of = Some (enabled c)\<rparr>"

definition property_of :: "'a option \<Rightarrow> 'a property" where
  "property_of v = (case v of None \<Rightarrow> Absent | Some x \<Rightarrow> Present (Some x))"

definition update_of :: "PartialChaosConfig \<Rightarrow> ConfigUpdate" where
  "update_of p =
     \<lparr>dropRate_arg = property_of (dropRate_opt p),
      duplicateRate_arg = property_of (duplicateRate_opt p),
      maxDelayMs_arg = property_of (maxDelayMs_opt p),
      reorderWindow_arg = property_of (reorderWindow_opt p),
      seed_arg = property_of (seed_opt p),
      enabled_arg = property_of (enabled_opt p)\<rparr>"

definition stored :: "ChaosProxy \<Rightarrow> ConfigObject ChaosProxy_of" where
  "stored px =
     \<lparr>config = object_of (config px), stats = stats px, random_state = random_state px,
      messageBuffer = messageBuffer px\<rparr>"

text \<open>
  \<open>calculateDelay\<close>. The literal \<open>0.3\<close> is a double, and so is the product
  \<open>this.random() * this.config.maxDelayMs\<close> that \<open>Math.floor\<close> is applied to.
\<close>

definition calculateDelay :: "ChaosProxy \<Rightarrow> int \<times> ChaosProxy" where
  "calculateDelay px =
     (if maxDelayMs (config px) \<le> 0 then (0, px)
      else
        let (d, s1) = seeded_random (random_state px) in
        if d < double (3 / 10) then
          let (d2, s2) = seeded_random s1;
              delay = \<lfloor>double (d2 * maxDelayMs (config px))\<rfloor>
          in (max 0 delay, px\<lparr>random_state := s2\<rparr>)
        else (0, px\<lparr>random_state := s1\<rparr>))"

section \<open>chaos-proxy.ts: sending\<close>

text \<open>
  \<open>setTimeout(callback, delay)\<close> hands a callback to the runtime; a call of the proxy
  returns the timers it has set, each with its delay in milliseconds.
\<close>

datatype 'w timer_callback =
    DuplicateSend "'w \<Rightarrow> MessageEnvelope completion \<times> 'w"
  | DelayedDelivery "MessageEnvelope option \<Rightarrow> 'w \<Rightarrow> unit completion \<times> 'w" "MessageEnvelope option"

type_synonym 'w timer = "real \<times> 'w timer_callback"

definition bump_sent :: "ChaosProxy \<Rightarrow> ChaosProxy" where
  "bump_sent px = px\<lparr>stats := (stats px)\<lparr>sent := sent (stats px) + 1\<rparr>\<rparr>"

definition bump_received :: "ChaosProxy \<Rightarrow> ChaosProxy" where
  "bump_received px = px\<lparr>stats := (stats px)\<lparr>received := received (stats px) + 1\<rparr>\<rparr>"

definition bump_dropped :: "ChaosProxy \<Rightarrow> ChaosProxy" where
  "bump_dropped px = px\<lparr>stats := (stats px)\<lparr>dropped := dropped (stats px) + 1\<rparr>\<rparr>"

definition bump_duplicated :: "ChaosProxy \<Rightarrow> ChaosProxy" where
  "bump_duplicated px = px\<lparr>stats := (stats px)\<lparr>duplicated := duplicated (stats px) + 1\<rparr>\<rparr>"

definition bump_delayed :: "ChaosProxy \<Rightarrow> ChaosProxy" where
  "bump_delayed px = px\<lparr>stats := (stats px)\<lparr>delayed := delayed (stats px) + 1\<rparr>\<rparr>"

definition add_reordered :: "nat \<Rightarrow> ChaosProxy \<Rightarrow> ChaosProxy" where
  "add_reordered n px = px\<lparr>stats := (stats px)\<lparr>reordered := reordered (stats px) + n\<rparr>\<rparr>"

text \<open>
  \<open>processSendMessage\<close>. The duplicate's delay is drawn from \<open>Math.random()\<close>, the
  engine's own generator, not from \<open>this.random\<close>; the argument \<open>u\<close> is the value
  \<open>Math.random()\<close> returns if the call reaches it, and the delay is the exact sum
  \<open>50 + u * 200\<close>. \<open>tempEnvelope\<close> is only read by \<open>console.log\<close> and is left out.
  The result is the completion of the returned promise (\<open>None\<close> for \<open>null\<close>), the
  proxy, the timers set, and the world.
\<close>

definition processSendMessage ::
  "ChaosProxy \<Rightarrow> real \<Rightarrow> 'w sendFn \<Rightarrow> 'w
     \<Rightarrow> MessageEnvelope option completion \<times> ChaosProxy \<times> 'w timer list \<times> 'w" where
  "processSendMessage px u sendFn w =
     (let px1 = bump_sent px in
      if \<not> enabled (config px1) then
        (case sendFn w of
           (Returned r, w') \<Rightarrow> (Returned (Some r), px1, [], w')
         | (Thrown e, w') \<Rightarrow> (Thrown e, px1, [], w'))
      else
        let (d1, s1) = seeded_random (random_state px1);
            px2 = px1\<lparr>random_state := s1\<rparr>
        in
        if d1 < dropRate (config px2) then (Returned None, bump_dropped px2, [], w)
        else
          (case sendFn w of
             (Thrown e, w') \<Rightarrow> (Thrown e, px2, [], w')
           | (Returned result, w') \<Rightarrow>
               let (d2, s2) = seeded_random (random_state px2);
                   px3 = px2\<lparr>random_state := s2\<rparr>
               in
               if d2 < duplicateRate (config px3) then
                 let duplicateDelay = max 1 (50 + u * 200)
                 in (Returned (Some result), bump_duplicated px3,
                     [(duplicateDelay, DuplicateSend sendFn)], w')
               else (Returned (Some result), px3, [], w')))"

text \<open>
  Running a timer's callback. The duplicate's callback wraps \<open>sendFn\<close> in
  \<open>try/catch\<close> and writes one console line either way. The delayed delivery's callback
  is \<open>() => handler(envelope)\<close>, with nothing around it.
\<close>

datatype console_line = DuplicateSentLine | FailedToSendDuplicate js_error

fun fire_timer :: "'w timer_callback \<Rightarrow> 'w \<Rightarrow> unit completion \<times> console_line list \<times> 'w" where
  "fire_timer (DuplicateSend sendFn) w =
     (case sendFn w of
        (Returned r, w') \<Rightarrow> (Returned (), [DuplicateSentLine], w')
      | (Thrown e, w') \<Rightarrow> (Returned (), [FailedToSendDuplicate e], w'))"
| "fire_timer (DelayedDelivery handler envelope) w =
     (case handler envelope w of (c, w') \<Rightarrow> (c, [], w'))"

section \<open>chaos-proxy.ts: receiving\<close>

text \<open>
  \<open>shuffled\<close> is a JavaScript array: reading an index outside \<open>0..length-1\<close> gives
  \<open>undefined\<close> unless a property of that name was written before, and writing a
  negative index adds such a property and leaves the elements alone. The array is its
  elements and its other integer-named properties. (An index at or above the length
  would extend the array; \<open>shuffle_index_range\<close> below shows \<open>j \<le> i\<close>, so the
  loop never writes there.)
\<close>

type_synonym 'a js_array = "'a option list \<times> (int \<Rightarrow> 'a option)"

definition array_get :: "'a js_array \<Rightarrow> int \<Rightarrow> 'a option" where
  "array_get a j =
     (if 0 \<le> j \<and> j < int (length (fst a)) then fst a ! nat j else snd a j)"

definition array_set :: "'a js_array \<Rightarrow> int \<Rightarrow> 'a option \<Rightarrow> 'a js_array" where
  "array_set a j v =
     (if 0 \<le> j \<and> j < int (length (fst a)) then ((fst a)[nat j := v], snd a)
      else (fst a, (snd a)(j := v)))"

text \<open>
  The loop \<open>for (let i = shuffled.length - 1; i > 0; i--)\<close>, entered with \<open>i\<close>. The
  index is \<open>Math.floor(this.random() * (i + 1))\<close>, the floor of a rounded product.
\<close>

fun shuffle_loop :: "nat \<Rightarrow> 'a js_array \<Rightarrow> int \<Rightarrow> 'a js_array \<times> int" where
  "shuffle_loop 0 a s = (a, s)"
| "shuffle_loop (Suc k) a s =
     (let (d, s') = seeded_random s;
          j = \<lfloor>double (d * (real (Suc k) + 1))\<rfloor>;
          temp = array_get a (int (Suc k));
          a1 = array_set a (int (Suc k)) (array_get a j);
          a2 = array_set a1 j temp
      in shuffle_loop k a2 s')"

text \<open>
  \<open>shuffled.some((msg, idx) => msg.messageId !== this.messageBuffer[idx]?.messageId)\<close>,
  on the elements from position \<open>idx\<close> on and the buffer from the same position on.
  Reading \<open>messageId\<close> of \<open>undefined\<close> throws a TypeError.
\<close>

fun some_reordered :: "MessageEnvelope option list \<Rightarrow> MessageEnvelope list \<Rightarrow> bool completion" where
  "some_reordered [] buf = Returned False"
| "some_reordered (None # rest) buf = Thrown TypeError"
| "some_reordered (Some msg # rest) buf =
     (if messageId msg \<noteq> (case buf of [] \<Rightarrow> None | b # _ \<Rightarrow> messageId b) then Returned True
      else some_reordered rest (tl buf))"

text \<open>The loop \<open>for (const envelope of shuffled)\<close>.\<close>

fun deliver_all ::
  "'w MessageHandler \<Rightarrow> MessageEnvelope option list \<Rightarrow> ChaosProxy \<Rightarrow> 'w
     \<Rightarrow> unit completion \<times> ChaosProxy \<times> 'w timer list \<times> 'w" where
  "deliver_all handler [] px w = (Returned (), px, [], w)"
| "deliver_all handler (envelope # rest) px w =
     (let (delay, px1) = calculateDelay px in
      if delay > 0 then
        (case deliver_all handler rest (bump_delayed px1) w of
           (c, px2, ts, w') \<Rightarrow>
             (c, px2, (real_of_int (max 1 delay), DelayedDelivery handler envelope) # ts, w'))
      else
        (case handler envelope w of
           (Thrown e, w') \<Rightarrow> (Thrown e, px1, [], w')
         | (Returned x, w') \<Rightarrow> deliver_all handler rest px1 w'))"

definition flushReorderBuffer ::
  "'w MessageHandler \<Rightarrow> ChaosProxy \<Rightarrow> 'w \<Rightarrow> unit completion \<times> ChaosProxy \<times> 'w timer list \<times> 'w" where
  "flushReorderBuffer handler px w =
     (if messageBuffer px = [] then (Returned (), px, [], w)
      else
        let buf = messageBuffer px;
            (shuffled, s') =
              shuffle_loop (length buf - 1) (map Some buf, \<lambda>j. None) (random_state px);
            px1 = px\<lparr>random_state := s'\<rparr>
        in
        (case some_reordered (fst shuffled) buf of
           Thrown e \<Rightarrow> (Thrown e, px1, [], w)
         | Returned was_reordered \<Rightarrow>
             let px2 = (if was_reordered then add_reordered (length (fst shuffled)) px1 else px1)
             in
             (case deliver_all handler (fst shuffled) px2 w of
                (Thrown e, px3, ts, w') \<Rightarrow> (Thrown e, px3, ts, w')
              | (Returned x, px3, ts, w') \<Rightarrow>
                  (Returned (), px3\<lparr>messageBuffer := []\<rparr>, ts, w'))))"

definition processReceiveMessage ::
  "ChaosProxy \<Rightarrow> MessageEnvelope \<Rightarrow> 'w MessageHandler \<Rightarrow> 'w
     \<Rightarrow> unit completion \<times> ChaosProxy \<times> 'w timer list \<times> 'w" where
  "processReceiveMessage px envelope handler w =
     (let px1 = bump_received px in
      if \<not> enabled (config px1) then
        (case handler (Some envelope) w of (c, w') \<Rightarrow> (c, px1, [], w'))
      else if reorderWindow (config px1) > 0 then
        let px2 = px1\<lparr>messageBuffer := messageBuffer px1 @ [envelope]\<rparr> in
        if int (length (messageBuffer px2)) \<ge> reorderWindow (config px2)
        then flushReorderBuffer handler px2 w
        else (Returned (), px2, [], w)
      else
        let (delay, px2) = calculateDelay px1 in
        if delay > 0 then
          (Returned (), bump_delayed px2,
           [(real_of_int (max 1 delay), DelayedDelivery handler (Some envelope))], w)
        else
          (case handler (Some envelope) w of (c, w') \<Rightarrow> (c, px2, [], w')))"

section \<open>Call sequences and example inputs\<close>

text \<open>
  A sequence of \<open>processSendMessage\<close> calls, each awaited before the next; every call
  comes with its own \<open>sendFn\<close> and with the value \<open>Math.random()\<close> would return.
\<close>

fun send_all ::
  "ChaosProxy \<Rightarrow> (real \<times> 'w sendFn) list \<Rightarrow> 'w
     \<Rightarrow> MessageEnvelope option completion list \<times> ChaosProxy \<times> 'w timer list \<times> 'w" where
  "send_all px [] w = ([], px, [], w)"
| "send_all px ((u, sendFn) # calls) w =
     (case processSendMessage px u sendFn w of
        (r, px1, ts, w1) \<Rightarrow>
          (case send_all px1 calls w1 of
             (rs, px2, ts', w2) \<Rightarrow> (r # rs, px2, ts @ ts', w2)))"

text \<open>A \<open>sendFn\<close> instrumented with a counter of its invocations.\<close>

definition counting :: "'w sendFn \<Rightarrow> (nat \<times> 'w) sendFn" where
  "counting sendFn = (\<lambda>(n, w). case sendFn w of (r, w') \<Rightarrow> (r, (Suc n, w')))"

definition example_envelope :: MessageEnvelope where
  "example_envelope =
     \<lparr>messageId = Some ''m1'', sequenceNumber = Some 1, sourceNode = Some ''satellite-001'',
      destinationNode = Some '''', messageType = Some ''HEARTBEAT'', timestamp = Some 0,
      payload = JNull, checksum = Some ''33c587''\<rparr>"

definition example_sendFn :: "nat sendFn" where
  "example_sendFn = (\<lambda>n. (Returned example_envelope, Suc n))"

definition negative_seed_config :: PartialChaosConfig where
  "negative_seed_config = no_config\<lparr>dropRate_opt := Some 0, seed_opt := Some (- 6)\<rparr>"

definition always_duplicate_config :: PartialChaosConfig where
  "always_duplicate_config = no_config\<lparr>dropRate_opt := Some 0, duplicateRate_opt := Some 1\<rparr>"

text \<open>
  Reconfigurations. \<open>used_proxy\<close> is the default proxy after two draws;
  \<open>undefined_seed\<close> is the object \<open>{seed: undefined}\<close>.
\<close>

definition no_update :: ConfigUpdate where
  "no_update =
     \<lparr>dropRate_arg = Absent, duplicateRate_arg = Absent, maxDelayMs_arg = Absent,
      reorderWindow_arg = Absent, seed_arg = Absent, enabled_arg = Absent\<rparr>"

definition used_proxy :: "ConfigObject ChaosProxy_of" where
  "used_proxy =
     stored ((constructor no_config)
       \<lparr>random_state := snd (seeded_random (snd (seeded_random (random_state (constructor no_config)))))\<rparr>)"

definition new_rate_and_seed :: ConfigUpdate where
  "new_rate_and_seed = no_update\<lparr>dropRate_arg := Present (Some (1 / 2)), seed_arg := Present (Some 7)\<rparr>"

definition new_rate :: ConfigUpdate where
  "new_rate = no_update\<lparr>dropRate_arg := Present (Some (1 / 2))\<rparr>"

definition undefined_seed :: ConfigUpdate where
  "undefined_seed = no_update\<lparr>seed_arg := Present None\<rparr>"

text \<open>A proxy with seed 148456 and delays of up to a minute.\<close>

definition minute_config :: PartialChaosConfig where
  "minute_config = no_config\<lparr>maxDelayMs_opt := Some 60000, seed_opt := Some 148456\<rparr>"

text \<open>A sequence of \<open>createMessage\<close> calls, and the sequence numbers handed to source \<open>s\<close>.\<close>

record create_call =
  call_uuid :: string
  call_now :: int
  call_sourceNode :: string
  call_messageType :: MessageType
  call_payload :: js_value
  call_destinationNode :: "string option"

fun create_all ::
  "sequenceCounters \<Rightarrow> create_call list \<Rightarrow> MessageEnvelope completion list \<times> sequenceCounters" where
  "create_all counters [] = ([], counters)"
| "create_all counters (c # cs) =
     (case createMessage counters (call_uuid c) (call_now c) (call_sourceNode c)
             (call_messageType c) (call_payload c) (call_destinationNode c) of
        (r, counters1) \<Rightarrow>
          (case create_all counters1 cs of (rs, counters2) \<Rightarrow> (r # rs, counters2)))"

definition assigned :: "string \<Rightarrow> create_call list \<Rightarrow> MessageEnvelope completion list \<Rightarrow> int option list" where
  "assigned s calls results =
     concat (map (\<lambda>(c, r). if call_sourceNode c = s
                             then (case r of Returned e \<Rightarrow> [sequenceNumber e] | Thrown x \<Rightarrow> [None])
                             else [])
              (zip calls results))"

definition serialisable :: "js_value \<Rightarrow> bool" where
  "serialisable p = (case JSON_stringify p of Returned (Some t) \<Rightarrow> True | _ \<Rightarrow> False)"

definition fresh_counters :: sequenceCounters where
  "fresh_counters = Map.empty"

definition example_calls :: "create_call list" where
  "example_calls =
     [\<lparr>call_uuid = ''u1'', call_now = 0, call_sourceNode = ''satellite-001'',
       call_messageType = ''TELEMETRY'', call_payload = JNull, call_destinationNode = None\<rparr>,
      \<lparr>call_uuid = ''u2'', call_now = 1, call_sourceNode = ''ground-control'',
       call_messageType = ''COMMAND'', call_payload = JBool True, call_destinationNode = None\<rparr>,
      \<lparr>call_uuid = ''u3'', call_now = 2, call_sourceNode = ''satellite-001'',
       call_messageType = ''HEARTBEAT'', call_payload = JInt 7, call_destinationNode = None\<rparr>]"

text \<open>
  Two calls for one source, the first without a payload (\<open>payload\<close> is \<open>undefined\<close>,
  as for a heartbeat that carries nothing).
\<close>

definition calls_without_payload :: "create_call list" where
  "calls_without_payload =
     [\<lparr>call_uuid = ''u1'', call_now = 0, call_sourceNode = ''satellite-001'',
       call_messageType = ''HEARTBEAT'', call_payload = JUndefined, call_destinationNode = None\<rparr>,
      \<lparr>call_uuid = ''u2'', call_now = 1, call_sourceNode = ''satellite-001'',
       call_messageType = ''HEARTBEAT'', call_payload = JString ''ok'', call_destinationNode = None\<rparr>]"

definition envelope_without_payload :: MessageEnvelope where
  "envelope_without_payload =
     \<lparr>messageId = Some ''m2'', sequenceNumber = Some 5, sourceNode = Some ''satellite-001'',
      destinationNode = None, messageType = Some ''HEARTBEAT'', timestamp = Some 0,
      payload = JUndefined, checksum = Some ''0''\<rparr>"

text \<open>A sequence of records handed to \<open>handleMessage\<close>, and a consumer whose seen-set is full.\<close>

fun handle_all :: "'w KafkaConsumer \<Rightarrow> wire_value list \<Rightarrow> 'w \<Rightarrow> 'w KafkaConsumer \<times> 'w" where
  "handle_all c [] w = (c, w)"
| "handle_all c (v # vs) w = (case handleMessage c v w of (h, c', w') \<Rightarrow> handle_all c' vs w')"

definition full_consumer :: "unit KafkaConsumer" where
  "full_consumer =
     new_KafkaConsumer\<lparr>seenMessageIds := map (\<lambda>n. Some (replicate (Suc n) CHR ''x'')) [0 ..< 10000]\<rparr>"

text \<open>
  A sequence of \<open>processReceiveMessage\<close> calls with one handler, each awaited before
  the next. \<open>logging\<close> instruments a handler with the list of its invocations;
  \<open>scheduled\<close> lists the envelopes whose delivery a list of timers holds.
\<close>

fun receive_all ::
  "ChaosProxy \<Rightarrow> MessageEnvelope list \<Rightarrow> 'w MessageHandler \<Rightarrow> 'w
     \<Rightarrow> unit completion list \<times> ChaosProxy \<times> 'w timer list \<times> 'w" where
  "receive_all px [] handler w = ([], px, [], w)"
| "receive_all px (envelope # rest) handler w =
     (case processReceiveMessage px envelope handler w of
        (c, px1, ts, w1) \<Rightarrow>
          (case receive_all px1 rest handler w1 of
             (cs, px2, ts', w2) \<Rightarrow> (c # cs, px2, ts @ ts', w2)))"

definition logging :: "'w MessageHandler \<Rightarrow> (MessageEnvelope option list \<times> 'w) MessageHandler" where
  "logging handler =
     (\<lambda>envelope (tr, w). case handler envelope w of (c, w') \<Rightarrow> (c, (tr @ [envelope], w')))"

fun timer_envelope :: "'w timer \<Rightarrow> MessageEnvelope option list" where
  "timer_envelope (d, DelayedDelivery handler envelope) = [envelope]"
| "timer_envelope (d, DuplicateSend sendFn) = []"

definition scheduled :: "'w timer list \<Rightarrow> MessageEnvelope option list" where
  "scheduled ts = concat (map timer_envelope ts)"

definition second_envelope :: MessageEnvelope where
  "second_envelope = example_envelope\<lparr>messageId := Some ''m2'', sequenceNumber := Some 2\<rparr>"

definition window_2 :: PartialChaosConfig where
  "window_2 = no_config\<lparr>reorderWindow_opt := Some 2\<rparr>"

definition negative_seed_window :: PartialChaosConfig where
  "negative_seed_window = no_config\<lparr>reorderWindow_opt := Some 2, seed_opt := Some (- 6)\<rparr>"

text \<open>
  A run of the proxy: a sequence of send and receive calls, each awaited before the
  next, together with the values \<open>Math.random()\<close> would return. The run yields what
  the calls returned, the proxy, the timers set, and the world.
\<close>

datatype 'w proxy_call =
    SendCall "'w \<Rightarrow> MessageEnvelope completion \<times> 'w"
  | ReceiveCall MessageEnvelope "MessageEnvelope option \<Rightarrow> 'w \<Rightarrow> unit completion \<times> 'w"

datatype call_result =
    SendResult "MessageEnvelope option completion"
  | ReceiveResult "unit completion"

fun run_call ::
  "ChaosProxy \<Rightarrow> 'w proxy_call \<Rightarrow> real \<Rightarrow> 'w \<Rightarrow> call_result \<times> ChaosProxy \<times> 'w timer list \<times> 'w" where
  "run_call px (SendCall sendFn) u w =
     (case processSendMessage px u sendFn w of (r, rest) \<Rightarrow> (SendResult r, rest))"
| "run_call px (ReceiveCall envelope handler) u w =
     (case processReceiveMessage px envelope handler w of (r, rest) \<Rightarrow> (ReceiveResult r, rest))"

fun run_calls ::
  "ChaosProxy \<Rightarrow> ('w proxy_call \<times> real) list \<Rightarrow> 'w
     \<Rightarrow> call_result list \<times> ChaosProxy \<times> 'w timer list \<times> 'w" where
  "run_calls px [] w = ([], px, [], w)"
| "run_calls px ((c, u) # calls) w =
     (case run_call px c u w of
        (r, px1, ts, w1) \<Rightarrow>
          (case run_calls px1 calls w1 of
             (rs, px2, ts', w2) \<Rightarrow> (r # rs, px2, ts @ ts', w2)))"

text \<open>
  A timer without what \<open>Math.random()\<close> contributed to it: the delay of a duplicate.
\<close>

definition seeded_part :: "'w timer \<Rightarrow> 'w timer" where
  "seeded_part t = (case snd t of DuplicateSend sendFn \<Rightarrow> (0, snd t) | DelayedDelivery h e \<Rightarrow> t)"

section \<open>Properties of the rounding\<close>

text \<open>
  The exponent brackets the number, so rounding moves a number by at most half a unit in
  the last place, which is at most \<open>2^-53\<close> of its magnitude; it keeps the sign; and a
  number with a significand of at most 53 bits is a double and stays as it is.
\<close>

lemma round_even_error: "\<bar>of_int (round_even y) - y\<bar> \<le> 1 / 2"
  unfolding round_even_def Let_def by (simp; linarith)

lemma round_even_of_int: "round_even (of_int n) = n"
  unfolding round_even_def Let_def by simp

lemma binary_exponent_lower:
  assumes "x \<noteq> 0"
  shows "2 powi (binary_exponent x) \<le> \<bar>x\<bar>"
proof (cases "1 \<le> \<bar>x\<bar>")
  case True
  define n where "n = \<lfloor>\<bar>x\<bar>\<rfloor>"
  have n: "0 < n" using True by (simp add: n_def)
  have b: "1 \<le> bitlen n" using n bitlen_eq_zero_iff [of n] bitlen_nonneg [of n] by linarith
  have "2 ^ nat (bitlen n - 1) \<le> n" using bitlen_bounds [OF n] by simp
  hence "(2::real) ^ nat (bitlen n - 1) \<le> of_int n"
    by (metis of_int_le_iff of_int_numeral of_int_power)
  also have "\<dots> \<le> \<bar>x\<bar>" by (simp add: n_def)
  finally show ?thesis
    using True b by (simp add: binary_exponent_def n_def power_int_nonneg_exp)
next
  case False
  define m where "m = \<lceil>1 / \<bar>x\<bar>\<rceil> - 1"
  have y: "1 < 1 / \<bar>x\<bar>" using False assms by simp
  have m: "0 < m" using y by (simp add: m_def less_ceiling_iff)
  have "1 / \<bar>x\<bar> \<le> of_int (m + 1)" by (simp add: m_def)
  also have "m + 1 \<le> 2 ^ nat (bitlen m)" using bitlen_bounds [OF m] by simp
  hence "real_of_int (m + 1) \<le> 2 ^ nat (bitlen m)"
    by (metis of_int_le_iff of_int_numeral of_int_power)
  finally have "1 / \<bar>x\<bar> \<le> 2 ^ nat (bitlen m)" .
  hence "1 / 2 ^ nat (bitlen m) \<le> \<bar>x\<bar>"
    using assms by (simp add: field_simps)
  moreover have "binary_exponent x = - bitlen m"
    using False by (simp add: binary_exponent_def m_def)
  moreover have "(2::real) powi (- bitlen m) = 1 / 2 ^ nat (bitlen m)"
    using bitlen_nonneg [of m] by (simp add: power_int_def field_simps)
  ultimately show ?thesis by simp
qed

lemma binary_exponent_upper:
  assumes "x \<noteq> 0"
  shows "\<bar>x\<bar> < 2 powi (binary_exponent x + 1)"
proof (cases "1 \<le> \<bar>x\<bar>")
  case True
  define n where "n = \<lfloor>\<bar>x\<bar>\<rfloor>"
  have n: "0 < n" using True by (simp add: n_def)
  have b: "1 \<le> bitlen n" using n bitlen_eq_zero_iff [of n] bitlen_nonneg [of n] by linarith
  have "n + 1 \<le> 2 ^ nat (bitlen n)" using bitlen_bounds [OF n] by simp
  hence "real_of_int (n + 1) \<le> 2 ^ nat (bitlen n)"
    by (metis of_int_le_iff of_int_numeral of_int_power)
  moreover have "\<bar>x\<bar> < of_int (n + 1)" unfolding n_def by linarith
  ultimately have "\<bar>x\<bar> < 2 ^ nat (bitlen n)" by linarith
  thus ?thesis
    using True b by (simp add: binary_exponent_def n_def power_int_nonneg_exp)
next
  case False
  define m where "m = \<lceil>1 / \<bar>x\<bar>\<rceil> - 1"
  have y: "1 < 1 / \<bar>x\<bar>" using False assms by simp
  have m: "0 < m" using y by (simp add: m_def less_ceiling_iff)
  have b: "1 \<le> bitlen m" using m bitlen_eq_zero_iff [of m] bitlen_nonneg [of m] by linarith
  have "2 ^ nat (bitlen m - 1) \<le> m" using bitlen_bounds [OF m] by simp
  hence "(2::real) ^ nat (bitlen m - 1) \<le> of_int m"
    by (metis of_int_le_iff of_int_numeral of_int_power)
  also have "of_int m < 1 / \<bar>x\<bar>" unfolding m_def by linarith
  finally have "2 ^ nat (bitlen m - 1) < 1 / \<bar>x\<bar>" .
  hence "\<bar>x\<bar> < 1 / 2 ^ nat (bitlen m - 1)"
    using assms by (simp add: field_simps)
  moreover have "binary_exponent x = - bitlen m"
    using False by (simp add: binary_exponent_def m_def)
  moreover have "(2::real) powi (- bitlen m + 1) = 1 / 2 ^ nat (bitlen m - 1)"
  proof -
    have "- bitlen m + 1 = - (bitlen m - 1)" by simp
    thus ?thesis using b by (simp only: power_int_def) (simp add: field_simps)
  qed
  ultimately show ?thesis by simp
qed


lemma binary_exponent_unique:
  assumes "x \<noteq> 0" and lo: "2 powi e \<le> \<bar>x\<bar>" and hi: "\<bar>x\<bar> < 2 powi (e + 1)"
  shows "binary_exponent x = e"
proof -
  let ?b = "binary_exponent x"
  have "(2::real) powi ?b < 2 powi (e + 1)"
    using binary_exponent_lower [OF assms(1)] hi by linarith
  hence "?b < e + 1"
    using power_int_increasing [of "e + 1" ?b "2::real"] by (cases "?b < e + 1") auto
  moreover have "(2::real) powi e < 2 powi (?b + 1)"
    using binary_exponent_upper [OF assms(1)] lo by linarith
  hence "e < ?b + 1"
    using power_int_increasing [of "?b + 1" e "2::real"] by (cases "e < ?b + 1") auto
  ultimately show ?thesis by simp
qed

lemma double_eval:
  assumes "x \<noteq> 0" and "2 powi e \<le> \<bar>x\<bar>" and "\<bar>x\<bar> < 2 powi (e + 1)"
  shows "double x = of_int (round_even (x / 2 powi (e - 52))) * 2 powi (e - 52)"
  using assms(1) binary_exponent_unique [OF assms] by (simp add: double_def Let_def)

lemma double_0: "double 0 = 0"
  by (simp add: double_def)

lemma double_error: "\<bar>double x - x\<bar> \<le> \<bar>x\<bar> / 2 ^ 53"
proof (cases "x = 0")
  case True
  thus ?thesis by (simp add: double_def)
next
  case False
  define e where "e = binary_exponent x"
  define ulp :: real where "ulp = 2 powi (e - 52)"
  have ulp: "0 < ulp" by (simp add: ulp_def)
  have d: "double x = of_int (round_even (x / ulp)) * ulp"
    using False by (simp add: double_def e_def ulp_def Let_def)
  have "double x - x = (of_int (round_even (x / ulp)) - x / ulp) * ulp"
    using ulp by (simp add: d left_diff_distrib)
  hence "\<bar>double x - x\<bar> = \<bar>of_int (round_even (x / ulp)) - x / ulp\<bar> * ulp"
    using ulp by (simp add: abs_mult)
  also have "\<dots> \<le> 1 / 2 * ulp"
    using round_even_error [of "x / ulp"] ulp by (intro mult_right_mono) auto
  also have "\<dots> = 2 powi e / 2 ^ 53"
    by (simp add: ulp_def power_int_diff)
  also have "\<dots> \<le> \<bar>x\<bar> / 2 ^ 53"
    using binary_exponent_lower [OF False] by (simp add: e_def divide_right_mono)
  finally show ?thesis .
qed

lemma double_le:
  assumes "0 \<le> x"
  shows "double x \<le> x * (1 + 1 / 2 ^ 53)"
proof -
  have "double x \<le> x + \<bar>x\<bar> / 2 ^ 53" using double_error [of x] by linarith
  thus ?thesis using assms by (simp add: algebra_simps)
qed

lemma double_ge:
  assumes "0 \<le> x"
  shows "x * (1 - 1 / 2 ^ 53) \<le> double x"
proof -
  have "x - \<bar>x\<bar> / 2 ^ 53 \<le> double x" using double_error [of x] by linarith
  thus ?thesis using assms by (simp add: algebra_simps)
qed

lemma double_nonneg: "0 \<le> x \<Longrightarrow> 0 \<le> double x"
proof -
  assume x: "0 \<le> x"
  have "0 \<le> x * (1 - 1 / 2 ^ 53)" using x by (intro mult_nonneg_nonneg) auto
  thus ?thesis using double_ge [OF x] by linarith
qed

lemma double_neg: "x < 0 \<Longrightarrow> double x < 0"
proof -
  assume x: "x < 0"
  have "double x \<le> x + \<bar>x\<bar> / 2 ^ 53" using double_error [of x] by linarith
  also have "\<dots> = x * (1 - 1 / 2 ^ 53)" using x by (simp add: algebra_simps)
  also have "\<dots> < 0" using x by (intro mult_neg_pos) auto
  finally show ?thesis .
qed

lemma double_exact:
  assumes "\<bar>m\<bar> < 2 ^ 53"
  shows "double (of_int m * 2 powi k) = of_int m * 2 powi k"
proof (cases "m = 0")
  case True
  thus ?thesis by (simp add: double_def)
next
  case False
  let ?x = "real_of_int m * 2 powi k"
  define e where "e = binary_exponent ?x"
  have x0: "?x \<noteq> 0" using False by simp
  have "2 powi e \<le> \<bar>?x\<bar>" using binary_exponent_lower [OF x0] by (simp add: e_def)
  also have "\<bar>?x\<bar> = \<bar>real_of_int m\<bar> * 2 powi k" by (simp add: abs_mult)
  also have "\<dots> < 2 ^ 53 * 2 powi k"
  proof -
    have "real_of_int \<bar>m\<bar> < real_of_int (2 ^ 53)" using assms by (simp only: of_int_less_iff)
    thus ?thesis by simp
  qed
  also have "\<dots> = 2 powi (53 + k)" by (simp add: power_int_add)
  finally have "e < 53 + k"
    using power_int_increasing [of "53 + k" e "2::real"] by (cases "e < 53 + k") auto
  hence n: "0 \<le> k - (e - 52)" by simp
  have "?x / 2 powi (e - 52) = of_int m * 2 powi (k - (e - 52))"
    by (simp add: power_int_diff)
  also have "\<dots> = of_int (m * 2 ^ nat (k - (e - 52)))"
    using n by (simp add: power_int_nonneg_exp)
  finally have "round_even (?x / 2 powi (e - 52)) = m * 2 ^ nat (k - (e - 52))"
    by (simp only: round_even_of_int)
  hence "double ?x = of_int (m * 2 ^ nat (k - (e - 52))) * 2 powi (e - 52)"
    using x0 by (simp add: double_def e_def [symmetric] Let_def)
  also have "\<dots> = of_int m * (2 powi (k - (e - 52)) * 2 powi (e - 52))"
    using n by (simp add: power_int_nonneg_exp)
  also have "2 powi (k - (e - 52)) * 2 powi (e - 52) = (2::real) powi k"
    by (simp add: power_int_add [symmetric])
  finally show ?thesis .
qed

lemma double_of_int: "\<bar>n\<bar> < 2 ^ 53 \<Longrightarrow> double (of_int n) = of_int n"
  using double_exact [of n 0] by simp

lemma double_numeral: "(numeral k :: int) < 2 ^ 53 \<Longrightarrow> double (numeral k) = numeral k"
  using double_of_int [of "numeral k"] by simp

lemma double_neg_numeral: "(numeral k :: int) < 2 ^ 53 \<Longrightarrow> double (- numeral k) = - numeral k"
  using double_of_int [of "- numeral k"] by simp

text \<open>
  Rounding is symmetric and monotone, and the result stays in the closed binade of the
  number. The largest double below 1 is \<open>1 - 2^-53\<close>.
\<close>

lemma round_even_floor: "\<lfloor>y\<rfloor> \<le> round_even y" "round_even y \<le> \<lfloor>y\<rfloor> + 1"
  by (simp_all add: round_even_def Let_def)

lemma round_even_mono:
  assumes "y \<le> z"
  shows "round_even y \<le> round_even z"
proof (cases "\<lfloor>y\<rfloor> = \<lfloor>z\<rfloor>")
  case True
  thus ?thesis using assms by (simp add: round_even_def Let_def)
next
  case False
  hence "\<lfloor>y\<rfloor> + 1 \<le> \<lfloor>z\<rfloor>" using floor_mono [OF assms] by linarith
  thus ?thesis using round_even_floor(2) [of y] round_even_floor(1) [of z] by linarith
qed

lemma round_even_minus: "round_even (- y) = - round_even y"
proof (cases "y = of_int \<lfloor>y\<rfloor>")
  case True
  then obtain n where "y = of_int n" ..
  thus ?thesis using round_even_of_int [of "- n"] round_even_of_int [of n] by simp
next
  case False
  have "of_int \<lfloor>y\<rfloor> < y" using False of_int_floor_le [of y] by linarith
  hence fl: "\<lfloor>- y\<rfloor> = - \<lfloor>y\<rfloor> - 1"
    by (intro floor_unique) (simp_all, linarith+)
  have ev: "even (- \<lfloor>y\<rfloor> - 1) = odd \<lfloor>y\<rfloor>" by simp
  show ?thesis
    unfolding round_even_def Let_def fl ev by (simp; linarith?)
qed


lemma double_minus: "double (- x) = - double x"
  by (simp add: double_def binary_exponent_def Let_def round_even_minus)

lemma double_binade:
  assumes "x \<noteq> 0"
  shows "2 powi (binary_exponent x) \<le> \<bar>double x\<bar>"
    and "\<bar>double x\<bar> \<le> 2 powi (binary_exponent x + 1)"
proof -
  define e where "e = binary_exponent x"
  define ulp :: real where "ulp = 2 powi (e - 52)"
  have ulp: "0 < ulp" by (simp add: ulp_def)
  have d: "\<bar>double x\<bar> = of_int (round_even (\<bar>x\<bar> / ulp)) * ulp"
  proof (cases "0 \<le> x")
    case True
    hence "\<bar>double x\<bar> = double x" using double_nonneg [of x] by simp
    thus ?thesis using True assms by (simp add: double_def e_def ulp_def Let_def)
  next
    case False
    hence "\<bar>double x\<bar> = double (- x)" using double_neg [of x] by (simp add: double_minus)
    moreover have "binary_exponent (- x) = e" by (simp add: binary_exponent_def e_def)
    ultimately show ?thesis using False assms by (simp add: double_def ulp_def Let_def)
  qed
  have lo: "2 ^ 52 * ulp = 2 powi e" and hi: "2 ^ 53 * ulp = 2 powi (e + 1)"
    by (simp_all add: ulp_def power_int_diff power_int_add)
  have "2 powi e \<le> \<bar>x\<bar>" using binary_exponent_lower [OF assms] by (simp add: e_def)
  hence "2 ^ 52 \<le> \<bar>x\<bar> / ulp" using ulp lo by (simp add: field_simps)
  hence "round_even (of_int (2 ^ 52)) \<le> round_even (\<bar>x\<bar> / ulp)"
    by (intro round_even_mono) simp
  hence "(2::int) ^ 52 \<le> round_even (\<bar>x\<bar> / ulp)" by (simp only: round_even_of_int)
  hence "(2::real) ^ 52 \<le> of_int (round_even (\<bar>x\<bar> / ulp))"
    by (metis of_int_le_iff of_int_numeral of_int_power)
  hence "2 ^ 52 * ulp \<le> of_int (round_even (\<bar>x\<bar> / ulp)) * ulp"
    using ulp by (intro mult_right_mono) simp_all
  thus "2 powi (binary_exponent x) \<le> \<bar>double x\<bar>" unfolding d lo e_def .
  have "\<bar>x\<bar> < 2 powi (e + 1)" using binary_exponent_upper [OF assms] by (simp add: e_def)
  hence "\<bar>x\<bar> / ulp \<le> 2 ^ 53" using ulp hi by (simp add: field_simps)
  hence "round_even (\<bar>x\<bar> / ulp) \<le> round_even (of_int (2 ^ 53))"
    by (intro round_even_mono) simp
  hence "round_even (\<bar>x\<bar> / ulp) \<le> (2::int) ^ 53" by (simp only: round_even_of_int)
  hence "of_int (round_even (\<bar>x\<bar> / ulp)) \<le> (2::real) ^ 53"
    by (metis of_int_le_iff of_int_numeral of_int_power)
  hence "of_int (round_even (\<bar>x\<bar> / ulp)) * ulp \<le> 2 ^ 53 * ulp"
    using ulp by (intro mult_right_mono) simp_all
  thus "\<bar>double x\<bar> \<le> 2 powi (binary_exponent x + 1)" unfolding d hi e_def .
qed

lemma double_mono_pos:
  assumes "0 < x" and "x \<le> y"
  shows "double x \<le> double y"
proof -
  have x0: "x \<noteq> 0" and y0: "y \<noteq> 0" using assms by simp_all
  let ?ex = "binary_exponent x" and ?ey = "binary_exponent y"
  have dx: "0 \<le> double x" and dy: "0 \<le> double y"
    using assms by (simp_all add: double_nonneg)
  have "2 powi ?ex \<le> \<bar>x\<bar>" by (rule binary_exponent_lower [OF x0])
  also have "\<bar>x\<bar> \<le> \<bar>y\<bar>" using assms by simp
  also have "\<bar>y\<bar> < 2 powi (?ey + 1)" by (rule binary_exponent_upper [OF y0])
  finally have "?ex < ?ey + 1"
    using power_int_increasing [of "?ey + 1" ?ex "2::real"] by (cases "?ex < ?ey + 1") auto
  hence "?ex = ?ey \<or> ?ex + 1 \<le> ?ey" by linarith
  thus ?thesis
  proof
    assume e: "?ex = ?ey"
    have "x / 2 powi (?ey - 52) \<le> y / 2 powi (?ey - 52)"
      using assms(2) by (intro divide_right_mono) simp_all
    hence "round_even (x / 2 powi (?ey - 52)) \<le> round_even (y / 2 powi (?ey - 52))"
      by (rule round_even_mono)
    hence "real_of_int (round_even (x / 2 powi (?ey - 52))) * 2 powi (?ey - 52)
        \<le> real_of_int (round_even (y / 2 powi (?ey - 52))) * 2 powi (?ey - 52)"
      by (intro mult_right_mono) simp_all
    thus ?thesis using x0 y0 e by (simp add: double_def Let_def)
  next
    assume e: "?ex + 1 \<le> ?ey"
    have "double x \<le> 2 powi (?ex + 1)" using double_binade(2) [OF x0] dx by simp
    also have "\<dots> \<le> 2 powi ?ey" using e by (intro power_int_increasing) simp_all
    also have "\<dots> \<le> double y" using double_binade(1) [OF y0] dy by simp
    finally show ?thesis .
  qed
qed

lemma double_mono:
  assumes "x \<le> y"
  shows "double x \<le> double y"
proof -
  consider "0 < x" | "x \<le> 0" "0 \<le> y" | "y < 0" by linarith
  thus ?thesis
  proof cases
    case 1
    thus ?thesis using assms by (rule double_mono_pos)
  next
    case 2
    have "double x \<le> 0"
      using 2(1) double_neg [of x] by (cases "x = 0") (simp_all add: double_0)
    moreover have "0 \<le> double y" using 2(2) by (rule double_nonneg)
    ultimately show ?thesis by simp
  next
    case 3
    hence "double (- y) \<le> double (- x)" using assms by (intro double_mono_pos) simp_all
    thus ?thesis by (simp add: double_minus)
  qed
qed

lemma largest_double_below_1:
  assumes "double u = u" and "u < 1"
  shows "u \<le> 1 - 1 / 2 ^ 53"
proof (cases "u \<le> 1 / 2")
  case True
  thus ?thesis by simp
next
  case False
  hence u: "u \<noteq> 0" "2 powi (- 1) \<le> \<bar>u\<bar>" "\<bar>u\<bar> < 2 powi (- 1 + 1)"
    using assms(2) by (simp_all add: power_int_minus)
  define r where "r = round_even (u / 2 powi (- 1 - 52))"
  have "u = of_int r * 2 powi (- 1 - 52)"
    using double_eval [OF u] assms(1) by (simp add: r_def)
  hence ur: "u = of_int r / 2 ^ 53" by (simp add: power_int_minus field_simps)
  hence "real_of_int r < real_of_int (2 ^ 53)" using assms(2) by (simp add: field_simps)
  hence "r < 2 ^ 53" by (simp only: of_int_less_iff)
  hence "r \<le> 2 ^ 53 - 1" by simp
  hence "real_of_int r \<le> real_of_int (2 ^ 53 - 1)" by (simp only: of_int_le_iff)
  thus ?thesis by (simp add: ur field_simps)
qed

section \<open>Properties of the generator\<close>

lemma js_rem_nonneg: "0 \<le> a \<Longrightarrow> js_rem a b = a mod \<bar>b\<bar>"
  by (cases "a = 0") (simp_all add: js_rem_def)

lemma js_rem_abs_less: "b \<noteq> 0 \<Longrightarrow> \<bar>js_rem a b\<bar> < \<bar>b\<bar>"
  by (simp add: js_rem_def abs_mult abs_sgn_eq)

text \<open>
  While the state is below \<open>2^39\<close> in magnitude, the update of the state is exact. After
  the first call the state is below 233280 in magnitude.
\<close>

lemma seeded_random_small:
  assumes "\<bar>s\<bar> < 2 ^ 39"
  shows "seeded_random s =
           (double (real_of_int (js_rem (s * 9301 + 49297) 233280) / 233280),
            js_rem (s * 9301 + 49297) 233280)"
proof -
  have a: "\<bar>s * 9301\<bar> < 2 ^ 53" "\<bar>s * 9301 + 49297\<bar> < 2 ^ 53"
    using assms by (simp_all add: abs_mult)
  have "double (real_of_int s * 9301) = real_of_int (s * 9301)"
    using double_of_int [OF a(1)] by simp
  moreover have "double (real_of_int (s * 9301) + 49297) = real_of_int (s * 9301 + 49297)"
    using double_of_int [OF a(2)] by simp
  ultimately show ?thesis
    by (simp only: seeded_random_def Let_def floor_of_int)
qed

lemma seeded_random_state_less: "\<bar>snd (seeded_random s)\<bar> < 233280"
  using js_rem_abs_less [of 233280] by (simp add: seeded_random_def Let_def)

lemma seeded_random_draw:
  "fst (seeded_random s) = double (real_of_int (snd (seeded_random s)) / 233280)"
  by (simp add: seeded_random_def Let_def)

lemma seeded_random_upper: "fst (seeded_random s) \<le> 233279 / 233280 * (1 + 1 / 2 ^ 53)"
proof -
  let ?k = "snd (seeded_random s)"
  let ?x = "real_of_int ?k / 233280"
  show ?thesis
  proof (cases "0 \<le> ?k")
    case True
    have "?k \<le> 233279" using seeded_random_state_less [of s] by linarith
    hence "?x \<le> 233279 / 233280" by simp
    hence "?x * (1 + 1 / 2 ^ 53) \<le> 233279 / 233280 * (1 + 1 / 2 ^ 53)"
      by (intro mult_right_mono) simp_all
    moreover have "double ?x \<le> ?x * (1 + 1 / 2 ^ 53)"
      using True by (intro double_le) simp
    ultimately show ?thesis by (simp only: seeded_random_draw)
  next
    case False
    hence "double ?x < 0" by (intro double_neg) simp
    thus ?thesis by (simp only: seeded_random_draw) simp
  qed
qed

lemma seeded_random_less_1: "fst (seeded_random s) < 1"
proof -
  have "233279 / 233280 * (1 + 1 / 2 ^ 53) < (1::real)" by simp
  thus ?thesis using seeded_random_upper [of s] by linarith
qed

lemma seeded_random_nonneg_state: "0 \<le> s \<Longrightarrow> 0 \<le> snd (seeded_random s)"
proof -
  assume s: "0 \<le> s"
  have "0 \<le> double (real_of_int s * 9301)" using s by (intro double_nonneg) simp
  hence "0 \<le> double (double (real_of_int s * 9301) + 49297)" by (intro double_nonneg) simp
  thus ?thesis by (simp add: seeded_random_def Let_def js_rem_nonneg)
qed

lemma seeded_random_nonneg_draw: "0 \<le> s \<Longrightarrow> 0 \<le> fst (seeded_random s)"
  using seeded_random_nonneg_state [of s]
  by (simp only: seeded_random_draw) (intro double_nonneg, simp)

section \<open>Construction and reconfiguration\<close>

text \<open>
  C10. The constructor without a configuration yields dropRate 0.1, duplicateRate 0.05,
  maxDelayMs 1000, reorderWindow 5, seed 12345, enabled true, all six counters 0, the
  generator seeded with 12345 and an empty reorder buffer. With a partial configuration
  every property it holds replaces the default and every other default stays; the
  counters are 0 either way. So chaos is on by default, with positive drop and duplicate
  rates.
\<close>

theorem constructor_defaults:
  "getConfig (constructor no_config) =
     \<lparr>dropRate = 1 / 10, duplicateRate = 5 / 100, maxDelayMs = 1000, reorderWindow = 5,
      seed = 12345, enabled = True\<rparr>
   \<and> random_state (constructor no_config) = createSeededRandom 12345
   \<and> enabled (getConfig (constructor no_config))
   \<and> 0 < dropRate (getConfig (constructor no_config))
   \<and> 0 < duplicateRate (getConfig (constructor no_config))
   \<and> getStats (constructor p) =
     \<lparr>sent = 0, received = 0, dropped = 0, duplicated = 0, delayed = 0, reordered = 0\<rparr>
   \<and> messageBuffer (constructor p) = []
   \<and> dropRate (getConfig (constructor p)) = (case dropRate_opt p of Some v \<Rightarrow> v | None \<Rightarrow> 1 / 10)
   \<and> duplicateRate (getConfig (constructor p)) =
       (case duplicateRate_opt p of Some v \<Rightarrow> v | None \<Rightarrow> 5 / 100)
   \<and> maxDelayMs (getConfig (constructor p)) = (case maxDelayMs_opt p of Some v \<Rightarrow> v | None \<Rightarrow> 1000)
   \<and> reorderWindow (getConfig (constructor p)) = (case reorderWindow_opt p of Some v \<Rightarrow> v | None \<Rightarrow> 5)
   \<and> seed (getConfig (constructor p)) = (case seed_opt p of Some v \<Rightarrow> v | None \<Rightarrow> 12345)
   \<and> enabled (getConfig (constructor p)) = (case enabled_opt p of Some v \<Rightarrow> v | None \<Rightarrow> True)
   \<and> random_state (constructor p) =
       createSeededRandom (case seed_opt p of Some v \<Rightarrow> v | None \<Rightarrow> 12345)"
  by (simp add: constructor_def getConfig_def getStats_def spread_def default_config_def
      no_config_def zero_stats_def Let_def split: option.split)

lemma example_draws:
  "seeded_random 12345 = (3721415803199787 / 9007199254740992, 96382)"
  "seeded_random 96382 = (4001964113320449 / 288230376151711744, 3239)"
  "seeded_random 3239 = (3170589737664229 / 9007199254740992, 82116)"
  "seeded_random 82116 = (3976403559879783 / 18014398509481984, 51493)"
  "seeded_random 51493 = (4776194049260377 / 18014398509481984, 61850)"
  by (simp_all add: seeded_random_small js_rem_def round_even_def Let_def
      double_eval [where e = "- 2"] double_eval [where e = "- 7"] double_eval [where e = "- 3"])

text \<open>
  On configurations whose properties are absent or hold a value, the spread in full is
  the typed spread, and \<open>updateConfig\<close> takes typed proxies to typed proxies.
\<close>

lemma spread_object_typed: "spread_object (object_of c) (update_of p) = object_of (spread c p)"
  by (simp add: spread_object_def object_of_def update_of_def spread_def merge_def property_of_def
      split: option.split)

lemma updateConfig_typed:
  "updateConfig (update_of p) (stored px) =
     stored (px\<lparr>config := spread (config px) p,
                 random_state := (case seed_opt p of Some sd \<Rightarrow> sd | None \<Rightarrow> random_state px)\<rparr>)"
proof -
  have "seed_arg (update_of p) = property_of (seed_opt p)" by (simp add: update_of_def)
  thus ?thesis
    by (cases "seed_opt p")
      (simp_all add: updateConfig_def stored_def spread_object_typed Let_def
        createSeededRandom_def property_of_def)
qed

text \<open>
  What \<open>updateConfig\<close> does, property by property: a property the partial
  configuration has is copied over the configuration, whatever it holds.
\<close>

lemma updateConfig_object:
  "getConfig (updateConfig p px) = spread_object (getConfig px) p"
  "random_state (updateConfig p px) =
     (case seed_arg p of
        Absent \<Rightarrow> random_state px
      | Present None \<Rightarrow> random_state px
      | Present (Some sd) \<Rightarrow> sd)"
  "stats (updateConfig p px) = stats px"
  "messageBuffer (updateConfig p px) = messageBuffer px"
  by (simp_all add: updateConfig_def getConfig_def Let_def createSeededRandom_def
      split: property.split option.split)

text \<open>
  C9. \<open>updateConfig\<close> replaces every configuration property for which the partial
  configuration holds a value and keeps every property that is absent from it. The
  generator is restarted exactly when the partial configuration holds a value for
  \<open>seed\<close>, and its state is then that seed; when \<open>seed\<close> is absent or holds
  \<open>undefined\<close> the generator keeps the state it has reached. Counters and reorder
  buffer are not touched.
\<close>

theorem updateConfig_merges_and_reseeds:
  "(\<forall>v. dropRate_arg p = Present (Some v) \<longrightarrow>
      dropRate_of (getConfig (updateConfig p px)) = Some v)
   \<and> (dropRate_arg p = Absent \<longrightarrow>
      dropRate_of (getConfig (updateConfig p px)) = dropRate_of (getConfig px))
   \<and> (\<forall>v. duplicateRate_arg p = Present (Some v) \<longrightarrow>
      duplicateRate_of (getConfig (updateConfig p px)) = Some v)
   \<and> (duplicateRate_arg p = Absent \<longrightarrow>
      duplicateRate_of (getConfig (updateConfig p px)) = duplicateRate_of (getConfig px))
   \<and> (\<forall>v. maxDelayMs_arg p = Present (Some v) \<longrightarrow>
      maxDelayMs_of (getConfig (updateConfig p px)) = Some v)
   \<and> (maxDelayMs_arg p = Absent \<longrightarrow>
      maxDelayMs_of (getConfig (updateConfig p px)) = maxDelayMs_of (getConfig px))
   \<and> (\<forall>v. reorderWindow_arg p = Present (Some v) \<longrightarrow>
      reorderWindow_of (getConfig (updateConfig p px)) = Some v)
   \<and> (reorderWindow_arg p = Absent \<longrightarrow>
      reorderWindow_of (getConfig (updateConfig p px)) = reorderWindow_of (getConfig px))
   \<and> (\<forall>v. seed_arg p = Present (Some v) \<longrightarrow>
      seed_of (getConfig (updateConfig p px)) = Some v)
   \<and> (seed_arg p = Absent \<longrightarrow>
      seed_of (getConfig (updateConfig p px)) = seed_of (getConfig px))
   \<and> (\<forall>v. enabled_arg p = Present (Some v) \<longrightarrow>
      enabled_of (getConfig (updateConfig p px)) = Some v)
   \<and> (enabled_arg p = Absent \<longrightarrow>
      enabled_of (getConfig (updateConfig p px)) = enabled_of (getConfig px))
   \<and> random_state (updateConfig p px) =
     (case seed_arg p of
        Absent \<Rightarrow> random_state px
      | Present None \<Rightarrow> random_state px
      | Present (Some sd) \<Rightarrow> sd)
   \<and> stats (updateConfig p px) = stats px
   \<and> messageBuffer (updateConfig p px) = messageBuffer px"
  by (simp add: updateConfig_object spread_object_def merge_def)

theorem updateConfig_merges_and_reseeds_witness:
  "getConfig (updateConfig new_rate_and_seed used_proxy) =
     \<lparr>dropRate_of = Some (1 / 2), duplicateRate_of = Some (5 / 100), maxDelayMs_of = Some 1000,
      reorderWindow_of = Some 5, seed_of = Some 7, enabled_of = Some True\<rparr>
   \<and> random_state used_proxy = 3239
   \<and> random_state (updateConfig new_rate_and_seed used_proxy) = 7
   \<and> getConfig (updateConfig new_rate used_proxy) =
     \<lparr>dropRate_of = Some (1 / 2), duplicateRate_of = Some (5 / 100), maxDelayMs_of = Some 1000,
      reorderWindow_of = Some 5, seed_of = Some 12345, enabled_of = Some True\<rparr>
   \<and> random_state (updateConfig new_rate used_proxy) = 3239"
proof -
  have px: "getConfig used_proxy = object_of default_config" "random_state used_proxy = 3239"
    by (simp_all add: used_proxy_def stored_def getConfig_def constructor_def no_config_def
        spread_def default_config_def createSeededRandom_def example_draws Let_def)
  have p1: "dropRate_arg new_rate_and_seed = Present (Some (1 / 2))"
    "duplicateRate_arg new_rate_and_seed = Absent" "maxDelayMs_arg new_rate_and_seed = Absent"
    "reorderWindow_arg new_rate_and_seed = Absent" "seed_arg new_rate_and_seed = Present (Some 7)"
    "enabled_arg new_rate_and_seed = Absent"
    by (simp_all add: new_rate_and_seed_def no_update_def)
  have p2: "dropRate_arg new_rate = Present (Some (1 / 2))"
    "duplicateRate_arg new_rate = Absent" "maxDelayMs_arg new_rate = Absent"
    "reorderWindow_arg new_rate = Absent" "seed_arg new_rate = Absent"
    "enabled_arg new_rate = Absent"
    by (simp_all add: new_rate_def no_update_def)
  have "getConfig (updateConfig new_rate_and_seed used_proxy) =
     \<lparr>dropRate_of = Some (1 / 2), duplicateRate_of = Some (5 / 100), maxDelayMs_of = Some 1000,
      reorderWindow_of = Some 5, seed_of = Some 7, enabled_of = Some True\<rparr>
   \<and> random_state (updateConfig new_rate_and_seed used_proxy) = 7"
    using updateConfig_merges_and_reseeds [of new_rate_and_seed used_proxy]
    by (simp add: p1 px object_of_def default_config_def)
  moreover have "getConfig (updateConfig new_rate used_proxy) =
     \<lparr>dropRate_of = Some (1 / 2), duplicateRate_of = Some (5 / 100), maxDelayMs_of = Some 1000,
      reorderWindow_of = Some 5, seed_of = Some 12345, enabled_of = Some True\<rparr>
   \<and> random_state (updateConfig new_rate used_proxy) = 3239"
    using updateConfig_merges_and_reseeds [of new_rate used_proxy]
    by (simp add: p2 px object_of_def default_config_def)
  ultimately show ?thesis using px(2) by simp
qed

text \<open>
  For \<open>updateConfig({seed: undefined})\<close> on the default proxy after two draws: \<open>seed\<close>
  is present in the partial configuration and the generator is not restarted (its state
  stays 3239), and the configuration's seed, 12345 before, is \<open>undefined\<close> afterwards.
  So the generator is not restarted whenever \<open>seed\<close> is present, and a partial
  configuration that supplies no seed value can still change the configuration's seed.
\<close>

theorem updateConfig_undefined_seed:
  "seed_arg undefined_seed = Present None
   \<and> random_state used_proxy = 3239
   \<and> random_state (updateConfig undefined_seed used_proxy) = 3239
   \<and> seed_of (getConfig used_proxy) = Some 12345
   \<and> seed_of (getConfig (updateConfig undefined_seed used_proxy)) = None"
  by (simp add: updateConfig_def undefined_seed_def no_update_def used_proxy_def stored_def
      getConfig_def constructor_def no_config_def spread_def default_config_def
      createSeededRandom_def example_draws spread_object_def merge_def object_of_def Let_def)

section \<open>Delay calculation\<close>

text \<open>
  A draw is below the double \<open>0.3\<close> exactly when the state it comes from is below three
  tenths of 233280: the rounding of the quotient and of the literal do not move the
  comparison. The same holds for the default rates \<open>0.1\<close> and \<open>0.05\<close>, which is why
  \<open>default_config\<close> can hold them as the rationals they stand for.
\<close>

lemma draw_below:
  assumes lo: "real_of_int (n - 1) / 233280 * (1 + 1 / 2 ^ 53) < c"
    and eq: "\<not> double (real_of_int n / 233280) < c"
    and hi: "c < real_of_int (n + 1) / 233280 * (1 - 1 / 2 ^ 53)"
    and c: "0 \<le> c"
  shows "(fst (seeded_random s) < c) = (snd (seeded_random s) < n)"
proof -
  let ?k = "snd (seeded_random s)"
  let ?x = "real_of_int ?k / 233280"
  have d: "fst (seeded_random s) = double ?x" by (rule seeded_random_draw)
  consider "?k < 0" | "0 \<le> ?k" "?k < n" | "?k = n" | "n < ?k" "0 \<le> ?k" | "n < ?k" "?k < 0"
    by linarith
  thus ?thesis
  proof cases
    case 1
    hence "double ?x < 0" by (intro double_neg) simp
    moreover have "?k < n"
    proof (rule ccontr)
      assume "\<not> ?k < n"
      hence "real_of_int (n + 1) / 233280 * (1 - 1 / 2 ^ 53) \<le> 0"
        using 1 by (intro mult_nonpos_nonneg) simp_all
      thus False using hi c by linarith
    qed
    ultimately show ?thesis using c by (simp add: d)
  next
    case 2
    have "double ?x \<le> ?x * (1 + 1 / 2 ^ 53)" using 2(1) by (intro double_le) simp
    also have "\<dots> \<le> real_of_int (n - 1) / 233280 * (1 + 1 / 2 ^ 53)"
      using 2(2) by (intro mult_right_mono) simp_all
    finally show ?thesis using lo 2(2) by (simp add: d)
  next
    case 3
    thus ?thesis using eq by (simp add: d)
  next
    case 4
    have "real_of_int (n + 1) / 233280 * (1 - 1 / 2 ^ 53) \<le> ?x * (1 - 1 / 2 ^ 53)"
      using 4(1) by (intro mult_right_mono) simp_all
    also have "\<dots> \<le> double ?x" using 4(2) by (intro double_ge) simp
    finally show ?thesis using hi 4(1) by (simp add: d)
  next
    case 5
    hence "real_of_int (n + 1) / 233280 * (1 - 1 / 2 ^ 53) \<le> 0"
      by (intro mult_nonpos_nonneg) simp_all
    thus ?thesis using hi c by linarith
  qed
qed

lemma literal_doubles:
  "double (3 / 10) = 5404319552844595 / 18014398509481984"
  "double (1 / 10) = 3602879701896397 / 36028797018963968"
  "double (1 / 20) = 3602879701896397 / 72057594037927936"
  by (simp_all add: round_even_def Let_def
      double_eval [where e = "- 2"] double_eval [where e = "- 4"] double_eval [where e = "- 5"])

lemma draw_below_3_10:
  "(fst (seeded_random s) < double (3 / 10)) = (real_of_int (snd (seeded_random s)) / 233280 < 3 / 10)"
proof -
  have "(fst (seeded_random s) < double (3 / 10)) = (snd (seeded_random s) < 69984)"
    by (rule draw_below) (simp_all add: literal_doubles)
  thus ?thesis by simp
qed

lemma draw_below_default_rates:
  "(fst (seeded_random s) < 1 / 10) = (fst (seeded_random s) < double (1 / 10))"
  "(fst (seeded_random s) < 5 / 100) = (fst (seeded_random s) < double (5 / 100))"
proof -
  have "(fst (seeded_random s) < 1 / 10) = (snd (seeded_random s) < 23328)"
    by (rule draw_below) (simp_all add: literal_doubles)
  moreover have "(fst (seeded_random s) < double (1 / 10)) = (snd (seeded_random s) < 23328)"
    by (rule draw_below) (simp_all add: literal_doubles)
  ultimately show "(fst (seeded_random s) < 1 / 10) = (fst (seeded_random s) < double (1 / 10))"
    by simp
  have "(fst (seeded_random s) < 1 / 20) = (snd (seeded_random s) < 11664)"
    by (rule draw_below) (simp_all add: literal_doubles)
  moreover have "(fst (seeded_random s) < double (1 / 20)) = (snd (seeded_random s) < 11664)"
    by (rule draw_below) (simp_all add: literal_doubles)
  ultimately show "(fst (seeded_random s) < 5 / 100) = (fst (seeded_random s) < double (5 / 100))"
    by simp
qed

text \<open>
  C7. \<open>calculateDelay\<close> returns 0 without drawing when \<open>maxDelayMs \<le> 0\<close>. Otherwise
  it draws \<open>d\<close>; exactly when \<open>d < 0.3\<close> it draws \<open>d2\<close> and returns the floor of the
  product \<open>d2 * maxDelayMs\<close> as the doubles give it, or 0 if that is negative; in every
  other case it returns 0 after the one draw. The result is never negative, and
  \<open>d < 0.3\<close> holds exactly when the state behind \<open>d\<close> is below three tenths of 233280.
\<close>

theorem calculateDelay_cases:
  "calculateDelay px =
     (if maxDelayMs (config px) \<le> 0 then (0, px)
      else if fst (seeded_random (random_state px)) < double (3 / 10) then
        (max 0 \<lfloor>double (fst (seeded_random (snd (seeded_random (random_state px))))
                          * maxDelayMs (config px))\<rfloor>,
         px\<lparr>random_state := snd (seeded_random (snd (seeded_random (random_state px))))\<rparr>)
      else (0, px\<lparr>random_state := snd (seeded_random (random_state px))\<rparr>))
   \<and> 0 \<le> fst (calculateDelay px)
   \<and> (fst (seeded_random (random_state px)) < double (3 / 10)) =
       (real_of_int (snd (seeded_random (random_state px))) / 233280 < 3 / 10)"
  using draw_below_3_10 [of "random_state px"]
  by (simp add: calculateDelay_def Let_def split_beta)

text \<open>The delay does not exceed \<open>maxDelayMs\<close>.\<close>

lemma scaled_draw_less:
  assumes "0 \<le> fst (seeded_random s)" and "0 < m"
  shows "double (fst (seeded_random s) * m) < m"
proof -
  let ?d = "fst (seeded_random s)"
  have "double (?d * m) \<le> ?d * m * (1 + 1 / 2 ^ 53)"
    using assms by (intro double_le) simp
  also have "\<dots> = ?d * (m * (1 + 1 / 2 ^ 53))" by simp
  also have "\<dots> \<le> 233279 / 233280 * (1 + 1 / 2 ^ 53) * (m * (1 + 1 / 2 ^ 53))"
    using assms(2) by (intro mult_right_mono seeded_random_upper) simp
  also have "\<dots> = (233279 / 233280 * (1 + 1 / 2 ^ 53) * (1 + 1 / 2 ^ 53)) * m" by simp
  also have "\<dots> < 1 * m"
    using assms(2) by (intro mult_strict_right_mono) simp_all
  finally show ?thesis by simp
qed

lemma calculateDelay_at_most:
  "real_of_int (fst (calculateDelay px)) \<le> max 0 (maxDelayMs (config px))"
proof (cases "maxDelayMs (config px) \<le> 0")
  case True
  thus ?thesis by (simp add: calculateDelay_def)
next
  case False
  let ?m = "maxDelayMs (config px)"
  let ?s1 = "snd (seeded_random (random_state px))"
  let ?d2 = "fst (seeded_random ?s1)"
  have "real_of_int (max 0 \<lfloor>double (?d2 * ?m)\<rfloor>) \<le> ?m"
  proof (cases "0 \<le> ?d2")
    case True
    have "real_of_int \<lfloor>double (?d2 * ?m)\<rfloor> \<le> double (?d2 * ?m)" by simp
    also have "\<dots> < ?m" using True False by (intro scaled_draw_less) simp_all
    finally show ?thesis using False by (simp add: max_def)
  next
    case d2: False
    hence "?d2 * ?m < 0" using False by (intro mult_neg_pos) simp_all
    hence "double (?d2 * ?m) < 0" by (rule double_neg)
    hence "\<lfloor>double (?d2 * ?m)\<rfloor> < 0" by (simp add: floor_less_iff)
    thus ?thesis using False by (simp add: max_def)
  qed
  thus ?thesis using False by (simp add: calculateDelay_def Let_def split_beta max_def)
qed

text \<open>
  Where the rounding shows: with seed 148456 and \<open>maxDelayMs = 60000\<close> the second draw
  comes from the state 119070, and \<open>119070 / 233280 * 60000\<close> is 30625 exactly; the
  rounded quotient is just below \<open>119070 / 233280\<close>, the rounded product just below
  30625, and the delay is 30624.
\<close>

lemma calculateDelay_rounds:
  "calculateDelay (constructor minute_config) =
     (30624, (constructor minute_config)\<lparr>random_state := 119070\<rparr>)"
  "\<lfloor>real_of_int 119070 / 233280 * 60000\<rfloor> = (30625 :: int)"
proof -
  have d: "seeded_random 148456 = (8375984862523461 / 36028797018963968, 54233)"
    "seeded_random 54233 = (4597424619607381 / 9007199254740992, 119070)"
    by (simp_all add: seeded_random_small js_rem_def round_even_def Let_def
        double_eval [where e = "- 3"] double_eval [where e = "- 1"])
  have pr: "double (8620171161763839375 / 281474976710656) = 8418135900159999 / 274877906944"
    by (simp add: round_even_def Let_def double_eval [where e = 14])
  show "calculateDelay (constructor minute_config) =
     (30624, (constructor minute_config)\<lparr>random_state := 119070\<rparr>)"
    by (simp add: calculateDelay_def constructor_def minute_config_def no_config_def spread_def
        default_config_def createSeededRandom_def d literal_doubles pr Let_def)
  show "\<lfloor>real_of_int 119070 / 233280 * 60000\<rfloor> = (30625 :: int)" by simp
qed

section \<open>Envelopes: sequence numbers and validation\<close>

lemma createMessage_ok:
  assumes "serialisable pl"
  shows "\<exists>e. fst (createMessage counters uuid now src mtype pl dest) = Returned e
           \<and> sequenceNumber e = Some (getSequenceCounter counters src + 1)"
  using assms
  by (auto simp add: createMessage_def serialisable_def calculateChecksum_def
      getSequenceCounter_def Let_def split: completion.splits option.splits)

lemma createMessage_counters:
  "snd (createMessage counters uuid now src mtype pl dest) =
     counters(src \<mapsto> getSequenceCounter counters src + 1)"
  by (simp add: createMessage_def getSequenceCounter_def Let_def split: completion.splits)

lemma create_all_sequence:
  assumes "\<forall>c\<in>set calls. call_sourceNode c = s \<longrightarrow> serialisable (call_payload c)"
  shows "assigned s calls (fst (create_all counters calls)) =
           map (\<lambda>k. Some (getSequenceCounter counters s + int k))
             [1 ..< Suc (length (filter (\<lambda>c. call_sourceNode c = s) calls))]
         \<and> getSequenceCounter (snd (create_all counters calls)) s =
           getSequenceCounter counters s + int (length (filter (\<lambda>c. call_sourceNode c = s) calls))"
  using assms
proof (induction calls arbitrary: counters)
  case Nil
  then show ?case by (simp add: assigned_def)
next
  case (Cons c cs)
  let ?r = "createMessage counters (call_uuid c) (call_now c) (call_sourceNode c)
             (call_messageType c) (call_payload c) (call_destinationNode c)"
  let ?c1 = "counters(call_sourceNode c \<mapsto> getSequenceCounter counters (call_sourceNode c) + 1)"
  let ?n = "length (filter (\<lambda>c. call_sourceNode c = s) cs)"
  have snd_r: "snd ?r = ?c1" by (rule createMessage_counters)
  have IH: "assigned s cs (fst (create_all ?c1 cs)) =
           map (\<lambda>k. Some (getSequenceCounter ?c1 s + int k)) [1 ..< Suc ?n]
         \<and> getSequenceCounter (snd (create_all ?c1 cs)) s = getSequenceCounter ?c1 s + int ?n"
    using Cons.prems by (intro Cons.IH) simp
  have unfold: "create_all counters (c # cs) =
      (fst ?r # fst (create_all ?c1 cs), snd (create_all ?c1 cs))"
    using snd_r by (simp add: split_beta)
  have A: "assigned s (c # cs) (fst (create_all counters (c # cs))) =
      (if call_sourceNode c = s
       then (case fst ?r of Returned e \<Rightarrow> [sequenceNumber e] | Thrown x \<Rightarrow> [None])
       else []) @ assigned s cs (fst (create_all ?c1 cs))"
    unfolding unfold by (simp add: assigned_def)
  have B: "snd (create_all counters (c # cs)) = snd (create_all ?c1 cs)"
    unfolding unfold by simp
  show ?case
  proof (cases "call_sourceNode c = s")
    case False
    then have "getSequenceCounter ?c1 s = getSequenceCounter counters s"
      by (simp add: getSequenceCounter_def)
    then show ?thesis using IH False unfolding A B by (simp del: upt_Suc)
  next
    case True
    then obtain e where e: "fst ?r = Returned e"
      "sequenceNumber e = Some (getSequenceCounter counters s + 1)"
      using createMessage_ok [of "call_payload c" counters] Cons.prems by force
    have c1: "getSequenceCounter ?c1 s = getSequenceCounter counters s + 1"
      using True by (simp add: getSequenceCounter_def)
    have "[1 ..< Suc (Suc ?n)] = 1 # map Suc [1 ..< Suc ?n]"
      by (simp add: map_Suc_upt upt_conv_Cons del: upt_Suc)
    then have shift: "map (\<lambda>k. Some (getSequenceCounter counters s + int k)) [1 ..< Suc (Suc ?n)] =
        Some (getSequenceCounter counters s + 1)
          # map (\<lambda>k. Some (getSequenceCounter counters s + 1 + int k)) [1 ..< Suc ?n]"
      by (simp add: o_def add.assoc del: upt_Suc)
    show ?thesis using IH True c1 e shift unfolding A B by (simp del: upt_Suc)
  qed
qed

lemma resetSequenceCounter_fresh: "getSequenceCounter (resetSequenceCounter counters s) s = 0"
  by (simp add: getSequenceCounter_def resetSequenceCounter_def)

text \<open>
  From a counter that is absent (or reset) for source \<open>s\<close>, the calls for \<open>s\<close> in any
  sequence of \<open>createMessage\<close> calls, each of which returns an envelope, get the
  sequence numbers 1, 2, ..., N in order, whatever calls for other sources come in
  between.
\<close>

lemma create_all_from_1:
  assumes "getSequenceCounter counters s = 0"
    and "\<forall>c\<in>set calls. call_sourceNode c = s \<longrightarrow> serialisable (call_payload c)"
  shows "assigned s calls (fst (create_all counters calls)) =
           map (\<lambda>k. Some (int k)) [1 ..< Suc (length (filter (\<lambda>c. call_sourceNode c = s) calls))]"
  using create_all_sequence [OF assms(2), of counters] assms(1) by simp

lemma create_all_example:
  "assigned ''satellite-001'' example_calls (fst (create_all fresh_counters example_calls)) =
     [Some 1, Some 2]"
proof -
  have h1: "getSequenceCounter fresh_counters ''satellite-001'' = 0"
    by (simp add: getSequenceCounter_def fresh_counters_def)
  have ser: "serialisable JNull" "serialisable (JInt 7)"
    by (simp_all add: serialisable_def)
  have h2: "\<forall>c\<in>set example_calls.
      call_sourceNode c = ''satellite-001'' \<longrightarrow> serialisable (call_payload c)"
    by (simp add: example_calls_def ser)
  have "[1 ..< Suc (length (filter (\<lambda>c. call_sourceNode c = ''satellite-001'') example_calls))]
      = [1, 2]"
    by (simp add: example_calls_def)
  with create_all_from_1 [OF h1 h2] show ?thesis by simp
qed

text \<open>
  C4. The claim fails when a call throws. \<open>createMessage\<close> stores the incremented
  counter before it computes the checksum, and \<open>calculateChecksum\<close> throws a TypeError
  on a payload that \<open>JSON.stringify\<close> renders to \<open>undefined\<close>. Of two calls for a fresh
  source, the first without a payload, the first throws and yields no envelope, and the
  second yields an envelope with sequence number 2: no envelope carries 1.
\<close>

theorem createMessage_number_lost_on_throw:
  "getSequenceCounter fresh_counters ''satellite-001'' = 0
   \<and> map (map_completion sequenceNumber) (fst (create_all fresh_counters calls_without_payload)) =
       [Thrown TypeError, Returned (Some 2)]
   \<and> assigned ''satellite-001'' calls_without_payload
         (fst (create_all fresh_counters calls_without_payload)) = [None, Some 2]
   \<and> getSequenceCounter (snd (create_all fresh_counters calls_without_payload)) ''satellite-001'' = 2"
  by (simp add: calls_without_payload_def fresh_counters_def createMessage_def assigned_def
      getSequenceCounter_def calculateChecksum_def Let_def json_quote_def json_escape_def
      hash_step_def number_toString_def digit_char_def)

lemma validateMessage_serialisable:
  assumes "serialisable (payload envelope)"
  shows "\<exists>b. validateMessage envelope = Returned b
    \<and> (b \<longleftrightarrow> \<not> falsy (messageId envelope) \<and> \<not> falsy (sourceNode envelope)
            \<and> \<not> falsy (messageType envelope)
            \<and> (case sequenceNumber envelope of None \<Rightarrow> True | Some n \<Rightarrow> 0 < n)
            \<and> Returned (checksum envelope) = map_completion Some (calculateChecksum (payload envelope)))"
  using assms
  by (auto simp add: validateMessage_def serialisable_def calculateChecksum_def
      split: completion.splits option.splits)

text \<open>
  C2. \<open>validateMessage\<close> throws where the claim says it returns false: for an envelope
  with every checked property in place and no payload, \<open>JSON.stringify\<close> returns
  \<open>undefined\<close> and reading its \<open>length\<close> throws a TypeError; a BigInt payload throws
  inside \<open>JSON.stringify\<close>. And an envelope without a sequence number whose checksum
  matches is accepted.
\<close>

theorem validateMessage_throws_without_payload:
  "validateMessage envelope_without_payload = Thrown TypeError
   \<and> validateMessage (example_envelope\<lparr>payload := JBigInt 1\<rparr>) = Thrown TypeError
   \<and> validateMessage (example_envelope\<lparr>sequenceNumber := None\<rparr>) = Returned True"
  by (simp add: validateMessage_def envelope_without_payload_def example_envelope_def falsy_def
      calculateChecksum_def hash_step_def number_toString_def digit_char_def)

section \<open>The consumer's seen-set\<close>

lemma delete_oldest:
  assumes "distinct (ys @ zs)"
  shows "foldl set_delete (ys @ zs) ys = zs"
  using assms
proof (induction ys)
  case Nil
  then show ?case by simp
next
  case (Cons y ys)
  then have "y \<notin> set (ys @ zs)" and "distinct (ys @ zs)" by auto
  then have "set_delete (y # ys @ zs) y = ys @ zs"
    by (simp add: set_delete_def)
  then show ?case using Cons.IH \<open>distinct (ys @ zs)\<close> by simp
qed

lemma delete_oldest_take:
  assumes "distinct xs"
  shows "foldl set_delete xs (take n xs) = drop n xs"
  using delete_oldest [of "take n xs" "drop n xs"] assms by simp

lemma handleMessage_seen:
  "seenMessageIds (fst (snd (handleMessage c v w))) = seenMessageIds c
   \<or> (\<exists>envelope. v = Parsed envelope \<and> messageId envelope \<notin> set (seenMessageIds c)
        \<and> validateMessage envelope = Returned True
        \<and> seenMessageIds (fst (snd (handleMessage c v w))) =
            (let seen1 = seenMessageIds c @ [messageId envelope] in
             if length seen1 > maxSeenIds c then foldl set_delete seen1 (take 1000 seen1) else seen1))"
  by (cases v)
    (auto simp add: handleMessage_def isDuplicateMessage_def set_add_def Let_def
      split: completion.splits bool.splits option.splits prod.splits)

lemma handleMessage_maxSeenIds: "maxSeenIds (fst (snd (handleMessage c v w))) = maxSeenIds c"
  by (cases v)
    (auto simp add: handleMessage_def Let_def
      split: completion.splits bool.splits option.splits prod.splits)

lemma handleMessage_seen_cases:
  assumes "distinct (seenMessageIds c)"
  shows "seenMessageIds (fst (snd (handleMessage c v w))) = seenMessageIds c
    \<or> (\<exists>envelope. v = Parsed envelope \<and> messageId envelope \<notin> set (seenMessageIds c)
        \<and> seenMessageIds (fst (snd (handleMessage c v w))) =
            (if length (seenMessageIds c) + 1 > maxSeenIds c
             then drop 1000 (seenMessageIds c @ [messageId envelope])
             else seenMessageIds c @ [messageId envelope]))"
proof -
  let ?seen' = "seenMessageIds (fst (snd (handleMessage c v w)))"
  consider (same) "?seen' = seenMessageIds c"
    | (added) envelope where "v = Parsed envelope" "messageId envelope \<notin> set (seenMessageIds c)"
        "?seen' = (let seen1 = seenMessageIds c @ [messageId envelope] in
             if length seen1 > maxSeenIds c then foldl set_delete seen1 (take 1000 seen1) else seen1)"
    using handleMessage_seen [of c v w] by blast
  then show ?thesis
  proof cases
    case same
    then show ?thesis by simp
  next
    case added
    have "distinct (seenMessageIds c @ [messageId envelope])"
      using assms added(2) by simp
    then have "?seen' = (if length (seenMessageIds c) + 1 > maxSeenIds c
               then drop 1000 (seenMessageIds c @ [messageId envelope])
               else seenMessageIds c @ [messageId envelope])"
      using added(3) delete_oldest_take [of "seenMessageIds c @ [messageId envelope]" 1000]
      by (simp add: Let_def)
    then show ?thesis using added(1,2) by blast
  qed
qed

lemma record_id_bounded:
  assumes "distinct seen" and "length seen \<le> cap" and "x \<notin> set seen"
  shows "length (if length seen + 1 > cap then drop 1000 (seen @ [x]) else seen @ [x]) \<le> cap"
    and "distinct (if length seen + 1 > cap then drop 1000 (seen @ [x]) else seen @ [x])"
proof -
  have d: "distinct (seen @ [x])" using assms(1,3) by simp
  have "length (drop 1000 (seen @ [x])) = length seen + 1 - 1000"
    by (simp del: drop_append)
  then show "length (if length seen + 1 > cap then drop 1000 (seen @ [x]) else seen @ [x]) \<le> cap"
    using assms(2) by (auto simp del: drop_append)
  show "distinct (if length seen + 1 > cap then drop 1000 (seen @ [x]) else seen @ [x])"
    using d distinct_drop [OF d, of 1000] by (simp del: drop_append)
qed

lemma handleMessage_invariant:
  assumes "distinct (seenMessageIds c)" and "length (seenMessageIds c) \<le> maxSeenIds c"
  shows "distinct (seenMessageIds (fst (snd (handleMessage c v w))))"
    and "length (seenMessageIds (fst (snd (handleMessage c v w)))) \<le> maxSeenIds c"
  using handleMessage_seen_cases [OF assms(1), of v w] record_id_bounded [OF assms] assms
  by auto

text \<open>
  C5. Every \<open>handleMessage\<close> call preserves the bound: if the seen-set holds at most
  \<open>maxSeenIds\<close> (10000) ids before, it does so after. The set changes only when a valid
  envelope with a new id arrives; the id is appended, and if that makes the size exceed
  the capacity the 1000 oldest ids are removed.
\<close>

theorem handleMessage_bounded:
  assumes "distinct (seenMessageIds c)" and "length (seenMessageIds c) \<le> maxSeenIds c"
  shows "length (seenMessageIds (fst (snd (handleMessage c v w)))) \<le> maxSeenIds c
    \<and> distinct (seenMessageIds (fst (snd (handleMessage c v w))))
    \<and> maxSeenIds (fst (snd (handleMessage c v w))) = maxSeenIds c
    \<and> (seenMessageIds (fst (snd (handleMessage c v w))) = seenMessageIds c
       \<or> (\<exists>envelope. v = Parsed envelope \<and> messageId envelope \<notin> set (seenMessageIds c)
          \<and> seenMessageIds (fst (snd (handleMessage c v w))) =
              (if length (seenMessageIds c) + 1 > maxSeenIds c
               then drop 1000 (seenMessageIds c @ [messageId envelope])
               else seenMessageIds c @ [messageId envelope])))"
  using handleMessage_seen_cases [OF assms(1), of v w] record_id_bounded [OF assms] assms
    handleMessage_maxSeenIds [of c v w]
  by auto

lemma example_envelope_valid: "validateMessage example_envelope = Returned True"
  by (simp add: validateMessage_def example_envelope_def falsy_def
      calculateChecksum_def hash_step_def number_toString_def digit_char_def)

theorem handleMessage_bounded_witness:
  "distinct (seenMessageIds full_consumer)
   \<and> length (seenMessageIds full_consumer) = 10000
   \<and> maxSeenIds full_consumer = 10000
   \<and> seenMessageIds (fst (snd (handleMessage full_consumer (Parsed example_envelope) ()))) =
       drop 1000 (seenMessageIds full_consumer @ [Some ''m1''])
   \<and> length (seenMessageIds (fst (snd (handleMessage full_consumer (Parsed example_envelope) ())))) = 9001"
proof -
  let ?c = full_consumer
  let ?seen' = "seenMessageIds (fst (snd (handleMessage ?c (Parsed example_envelope) ())))"
  have inj: "inj_on (\<lambda>n. Some (replicate (Suc n) CHR ''x'')) {0 ..< 10000}"
    by (rule inj_onI) (metis length_replicate option.inject nat.inject)
  have h1: "distinct (seenMessageIds ?c)"
    by (simp add: full_consumer_def distinct_map inj del: replicate_Suc)
  have len: "length (seenMessageIds ?c) = 10000" by (simp add: full_consumer_def)
  have cap: "maxSeenIds ?c = 10000" by (simp add: full_consumer_def new_KafkaConsumer_def)
  have h2: "length (seenMessageIds ?c) \<le> maxSeenIds ?c" using len cap by simp
  have new: "messageId example_envelope = Some ''m1''" by (simp add: example_envelope_def)
  have fresh: "Some ''m1'' \<notin> set (seenMessageIds ?c)"
    by (auto simp add: full_consumer_def)
  have changed: "?seen' \<noteq> seenMessageIds ?c"
  proof -
    have "?seen' = foldl set_delete (seenMessageIds ?c @ [Some ''m1''])
        (take 1000 (seenMessageIds ?c @ [Some ''m1'']))"
      using fresh len cap
      by (simp add: handleMessage_def example_envelope_valid isDuplicateMessage_def new
          set_add_def Let_def split: option.splits prod.splits completion.splits)
    also have "\<dots> = drop 1000 (seenMessageIds ?c @ [Some ''m1''])"
      using h1 fresh by (intro delete_oldest_take) simp
    finally have "length ?seen' = 9001" using len by (simp del: drop_append)
    then show ?thesis using len by auto
  qed
  from handleMessage_bounded [OF h1 h2, of "Parsed example_envelope" "()"] changed
  have "?seen' = drop 1000 (seenMessageIds ?c @ [Some ''m1''])"
    using len cap new by auto
  moreover from this have "length ?seen' = 9001" using len by (simp del: drop_append)
  ultimately show ?thesis using h1 len cap by simp
qed

text \<open>
  So a consumer that starts with an empty seen-set never holds more than 10000 ids,
  whatever records arrive and whatever handlers are registered.
\<close>

lemma handle_all_bounded:
  assumes "distinct (seenMessageIds c)" and "length (seenMessageIds c) \<le> maxSeenIds c"
  shows "length (seenMessageIds (fst (handle_all c vs w))) \<le> maxSeenIds c"
  using assms
proof (induction vs arbitrary: c w)
  case Nil
  then show ?case by simp
next
  case (Cons v vs)
  obtain h c' w' where step: "handleMessage c v w = (h, c', w')" by (metis prod_cases3)
  have "distinct (seenMessageIds c')" "length (seenMessageIds c') \<le> maxSeenIds c'"
    "maxSeenIds c' = maxSeenIds c"
    using handleMessage_invariant [OF Cons.prems, of v w] handleMessage_maxSeenIds [of c v w]
    by (simp_all add: step)
  then show ?case using Cons.IH [of c' w'] by (simp add: step)
qed

lemma new_consumer_bounded:
  "length (seenMessageIds (fst (handle_all (new_KafkaConsumer\<lparr>messageHandlers := hs\<rparr>) vs w)))
     \<le> 10000"
  using handle_all_bounded [of "new_KafkaConsumer\<lparr>messageHandlers := hs\<rparr>" vs w]
  by (simp add: new_KafkaConsumer_def)

section \<open>Sending: drop extremes\<close>

text \<open>
  With chaos enabled and \<open>dropRate = 1\<close> every call is dropped, whatever the seed:
  every draw is below 1. \<open>sendFn\<close> is not applied, so the world is returned as it was.
\<close>

lemma send_dropRate_1:
  assumes "enabled (config px)" and "dropRate (config px) = 1"
  shows "processSendMessage px u sendFn w =
           (Returned None,
            bump_dropped ((bump_sent px)\<lparr>random_state := snd (seeded_random (random_state px))\<rparr>),
            [], w)"
  using assms seeded_random_less_1 [of "random_state px"]
  by (simp add: processSendMessage_def Let_def split_beta bump_sent_def)

lemma send_all_dropRate_1:
  assumes "enabled (config px)" and "dropRate (config px) = 1"
  shows "\<exists>px'. send_all px calls w = (replicate (length calls) (Returned None), px', [], w)
           \<and> dropped (stats px') = dropped (stats px) + length calls
           \<and> sent (stats px') = sent (stats px) + length calls
           \<and> config px' = config px"
  using assms
proof (induction calls arbitrary: px)
  case Nil
  then show ?case by simp
next
  case (Cons c calls)
  obtain u sendFn where c: "c = (u, sendFn)" by (cases c)
  let ?px1 = "bump_dropped ((bump_sent px)\<lparr>random_state := snd (seeded_random (random_state px))\<rparr>)"
  have step: "processSendMessage px u sendFn w = (Returned None, ?px1, [], w)"
    using Cons.prems by (rule send_dropRate_1)
  have cfg: "config ?px1 = config px" by (simp add: bump_dropped_def bump_sent_def)
  obtain px' where rest: "send_all ?px1 calls w = (replicate (length calls) (Returned None), px', [], w)"
    "dropped (stats px') = dropped (stats ?px1) + length calls"
    "sent (stats px') = sent (stats ?px1) + length calls"
    "config px' = config ?px1"
    using Cons.IH [of ?px1] Cons.prems cfg by auto
  show ?case
    using rest cfg by (simp add: c step bump_dropped_def bump_sent_def)
qed

text \<open>
  With \<open>dropRate = 0\<close> nothing is dropped as long as the generator's state is not
  negative (every seed from 0 on): the draws are then in \<open>[0, 1)\<close>. Every call invokes
  its \<open>sendFn\<close> once.
\<close>

lemma send_dropRate_0:
  assumes "enabled (config px)" and "dropRate (config px) = 0" and "0 \<le> random_state px"
  shows "fst (processSendMessage px u sendFn w) =
           (case fst (sendFn w) of Returned r \<Rightarrow> Returned (Some r) | Thrown e \<Rightarrow> Thrown e)"
    and "snd (snd (snd (processSendMessage px u sendFn w))) = snd (sendFn w)"
    and "dropped (stats (fst (snd (processSendMessage px u sendFn w)))) = dropped (stats px)"
    and "0 \<le> random_state (fst (snd (processSendMessage px u sendFn w)))"
    and "config (fst (snd (processSendMessage px u sendFn w))) = config px"
  using assms seeded_random_nonneg_draw [of "random_state px"]
    seeded_random_nonneg_state [of "random_state px"]
    seeded_random_nonneg_state [of "snd (seeded_random (random_state px))"]
  by (auto simp add: processSendMessage_def Let_def split_beta bump_sent_def bump_duplicated_def
      split: prod.splits completion.splits)

lemma counting_world: "snd (counting f (n, w)) = (Suc n, snd (f w))"
  by (simp add: counting_def split_beta)

lemma send_all_dropRate_0:
  assumes "enabled (config px)" and "dropRate (config px) = 0" and "0 \<le> random_state px"
  shows "Returned None \<notin> set (fst (send_all px (map (\<lambda>(u, f). (u, counting f)) calls) (n, w)))
         \<and> dropped (stats (fst (snd (send_all px (map (\<lambda>(u, f). (u, counting f)) calls) (n, w)))))
             = dropped (stats px)
         \<and> fst (snd (snd (snd (send_all px (map (\<lambda>(u, f). (u, counting f)) calls) (n, w)))))
             = n + length calls"
  using assms
proof (induction calls arbitrary: px n w)
  case Nil
  then show ?case by simp
next
  case (Cons c calls)
  obtain u f where c: "c = (u, f)" by (cases c)
  obtain r px1 ts w1 where step: "processSendMessage px u (counting f) (n, w) = (r, px1, ts, w1)"
    by (metis prod_cases4)
  note facts = send_dropRate_0 [OF Cons.prems, of u "counting f" "(n, w)", unfolded step, simplified]
  have r: "r \<noteq> Returned None" using facts(1) by (auto split: completion.splits)
  have w1: "w1 = (Suc n, snd (f w))" using facts(2) by (simp add: counting_world)
  have px1: "enabled (config px1)" "dropRate (config px1) = 0" "0 \<le> random_state px1"
    "dropped (stats px1) = dropped (stats px)"
    using facts Cons.prems by simp_all
  show ?case
    using Cons.IH [OF px1(1-3), of "Suc n" "snd (f w)"] r px1(4)
    by (simp add: c step w1 split_beta)
qed


lemma negative_seed_draw:
  "seeded_random (- 6) = (double (- 6509 / 233280), - 6509)"
  "double (- (6509 / 233280)) = - (2010557611423495 / 72057594037927936)"
  by (simp_all add: seeded_random_small js_rem_def round_even_def Let_def
      double_eval [where e = "- 6"])

text \<open>
  C3. The claim's second half fails for a negative seed. JavaScript's \<open>%\<close> keeps the
  sign of the dividend, so seed \<open>-6\<close> gives the state \<open>-6509\<close> and the draw
  \<open>-6509/233280\<close> (rounded to a double), which is below \<open>dropRate = 0\<close>: the first
  call is dropped, the counter \<open>dropped\<close> goes up and \<open>sendFn\<close> is not invoked (the
  invocation counter stays 0).
\<close>

theorem dropRate_0_negative_seed_drops:
  "processSendMessage (constructor negative_seed_config) u (counting sendFn) (0, w) =
     (Returned None,
      bump_dropped ((bump_sent (constructor negative_seed_config))\<lparr>random_state := - 6509\<rparr>),
      [], (0, w))
   \<and> dropRate (config (constructor negative_seed_config)) = 0
   \<and> enabled (config (constructor negative_seed_config))
   \<and> fst (seeded_random (random_state (constructor negative_seed_config))) =
       double (- 6509 / 233280)
   \<and> fst (seeded_random (random_state (constructor negative_seed_config))) < 0"
  by (simp add: processSendMessage_def constructor_def negative_seed_config_def no_config_def
      spread_def default_config_def createSeededRandom_def negative_seed_draw
      bump_sent_def Let_def)

section \<open>Sending: duplicates\<close>

text \<open>
  The delay of a duplicate as the doubles give it, \<open>50 + Math.random() * 200\<close> with two
  roundings, and the exact sum differ by less than \<open>2^-44\<close> milliseconds; for a double
  \<open>u\<close> in \<open>[0, 1)\<close> the rounded delay lies in \<open>[50, 250)\<close> like the exact one.
\<close>

lemma duplicate_delay_rounding:
  assumes "0 \<le> u" and "u < 1"
  shows "\<bar>double (50 + double (u * 200)) - (50 + u * 200)\<bar> \<le> 1 / 2 ^ 44"
proof -
  let ?a = "double (u * 200)"
  have a: "\<bar>?a - u * 200\<bar> \<le> 200 / 2 ^ 53"
  proof -
    have "\<bar>?a - u * 200\<bar> \<le> \<bar>u * 200\<bar> / 2 ^ 53" by (rule double_error)
    also have "\<dots> \<le> 200 / 2 ^ 53" using assms by (intro divide_right_mono) simp_all
    finally show ?thesis .
  qed
  have "0 \<le> ?a" using assms(1) by (intro double_nonneg) simp
  moreover have "?a \<le> u * 200 + 200 / 2 ^ 53" using a by linarith
  ultimately have y: "\<bar>50 + ?a\<bar> \<le> 251" using assms(2) by simp
  have "\<bar>double (50 + ?a) - (50 + ?a)\<bar> \<le> \<bar>50 + ?a\<bar> / 2 ^ 53" by (rule double_error)
  also have "\<dots> \<le> 251 / 2 ^ 53" using y by (intro divide_right_mono) simp_all
  finally have "\<bar>double (50 + ?a) - (50 + ?a)\<bar> \<le> 251 / 2 ^ 53" .
  hence "\<bar>double (50 + ?a) - (50 + u * 200)\<bar> \<le> 251 / 2 ^ 53 + 200 / 2 ^ 53"
    using a by linarith
  also have "\<dots> \<le> 1 / 2 ^ 44" by simp
  finally show ?thesis .
qed

lemma duplicate_delay_range:
  assumes "double u = u" and "0 \<le> u" and "u < 1"
  shows "50 \<le> double (50 + double (u * 200))" and "double (50 + double (u * 200)) < 250"
proof -
  let ?a = "double (u * 200)"
  have "0 \<le> ?a" using assms(2) by (intro double_nonneg) simp
  hence "double 50 \<le> double (50 + ?a)" by (intro double_mono) simp
  moreover have "double 50 = 50"
    by (simp add: round_even_def Let_def double_eval [where e = 5])
  ultimately show "50 \<le> double (50 + ?a)" by simp
  have "u * 200 \<le> (1 - 1 / 2 ^ 53) * 200"
    using largest_double_below_1 [OF assms(1,3)] by (intro mult_right_mono) simp_all
  hence "?a \<le> double ((1 - 1 / 2 ^ 53) * 200)" by (rule double_mono)
  also have "double ((1 - 1 / 2 ^ 53) * 200) = 200 - 1 / 2 ^ 45"
    by (simp add: round_even_def Let_def double_eval [where e = 7])
  finally have "50 + ?a \<le> 250 - 1 / 2 ^ 45" by simp
  hence "double (50 + ?a) \<le> double (250 - 1 / 2 ^ 45)" by (rule double_mono)
  also have "double (250 - 1 / 2 ^ 45) = 250 - 1 / 2 ^ 45"
    by (simp add: round_even_def Let_def double_eval [where e = 7])
  finally show "double (50 + ?a) < 250" by simp
qed

text \<open>
  C6. With chaos enabled, when the first draw does not drop the message, \<open>sendFn\<close>
  returns \<open>result\<close>, and the second draw is below \<open>duplicateRate\<close>, the call returns
  \<open>result\<close> unchanged, \<open>duplicated\<close> is one higher, and exactly one timer is set: a
  second invocation of the same \<open>sendFn\<close> after \<open>max 1 (50 + u * 200)\<close> ms, which lies
  in \<open>[50, 250)\<close> for \<open>u\<close> in \<open>[0, 1)\<close>. The call itself has invoked \<open>sendFn\<close> once
  (the world is \<open>w'\<close>). When the timer fires, the callback completes normally whether
  \<open>sendFn\<close> returns or throws, and writes one console line: the failure, if it threw.
\<close>

theorem processSendMessage_duplicate:
  assumes "enabled (config px)"
    and "\<not> fst (seeded_random (random_state px)) < dropRate (config px)"
    and "sendFn w = (Returned result, w')"
    and "fst (seeded_random (snd (seeded_random (random_state px)))) < duplicateRate (config px)"
    and "0 \<le> u" and "u < 1"
  shows "\<exists>px' duplicateDelay.
           processSendMessage px u sendFn w =
             (Returned (Some result), px', [(duplicateDelay, DuplicateSend sendFn)], w')
           \<and> duplicateDelay = 50 + u * 200 \<and> 1 \<le> duplicateDelay
           \<and> 50 \<le> duplicateDelay \<and> duplicateDelay < 250
           \<and> duplicated (stats px') = duplicated (stats px) + 1
           \<and> sent (stats px') = sent (stats px) + 1
           \<and> dropped (stats px') = dropped (stats px)
           \<and> random_state px' = snd (seeded_random (snd (seeded_random (random_state px))))
           \<and> (\<forall>v. fst (fire_timer (DuplicateSend sendFn) v) = Returned ()
                  \<and> snd (snd (fire_timer (DuplicateSend sendFn) v)) = snd (sendFn v)
                  \<and> fst (snd (fire_timer (DuplicateSend sendFn) v)) =
                      (case fst (sendFn v) of
                         Returned r \<Rightarrow> [DuplicateSentLine]
                       | Thrown e \<Rightarrow> [FailedToSendDuplicate e]))"
proof -
  have fire: "fst (fire_timer (DuplicateSend sendFn) v) = Returned ()
      \<and> snd (snd (fire_timer (DuplicateSend sendFn) v)) = snd (sendFn v)
      \<and> fst (snd (fire_timer (DuplicateSend sendFn) v)) =
          (case fst (sendFn v) of
             Returned r \<Rightarrow> [DuplicateSentLine]
           | Thrown e \<Rightarrow> [FailedToSendDuplicate e])" for v
    by (cases "sendFn v"; cases "fst (sendFn v)") simp_all
  have delay: "max 1 (50 + u * 200) = 50 + u * 200" "50 + u * 200 < 250"
    using assms(5,6) by (simp_all add: max_def)
  show ?thesis
    using assms(1-4) assms(5) delay fire
    by (simp add: processSendMessage_def Let_def split_beta bump_sent_def bump_duplicated_def)
qed

theorem processSendMessage_duplicate_witness:
  "processSendMessage (constructor no_config) (1 / 4) example_sendFn 0 =
     (Returned (Some example_envelope),
      bump_duplicated ((bump_sent (constructor no_config))\<lparr>random_state := 3239\<rparr>),
      [(100, DuplicateSend example_sendFn)], 1)
   \<and> fire_timer (DuplicateSend example_sendFn) 1 = (Returned (), [DuplicateSentLine], 2)
   \<and> fire_timer (DuplicateSend (\<lambda>n. (Thrown (Error ''not connected''), Suc n))) (1 :: nat) =
       (Returned (), [FailedToSendDuplicate (Error ''not connected'')], 2)"
proof -
  let ?px = "constructor no_config"
  have cfg: "config ?px = default_config" "random_state ?px = 12345"
    by (simp_all add: constructor_def no_config_def spread_def default_config_def
        createSeededRandom_def Let_def)
  have h1: "enabled (config ?px)" by (simp add: cfg default_config_def)
  have h2: "\<not> fst (seeded_random (random_state ?px)) < dropRate (config ?px)"
    by (simp add: cfg example_draws default_config_def)
  have h3: "example_sendFn 0 = (Returned example_envelope, 1)"
    by (simp add: example_sendFn_def)
  have h4: "fst (seeded_random (snd (seeded_random (random_state ?px)))) < duplicateRate (config ?px)"
    by (simp add: cfg example_draws default_config_def)
  from processSendMessage_duplicate
    [where px = ?px and sendFn = example_sendFn and w = 0 and u = "1 / 4", OF h1 h2 h3 h4]
  obtain px' d where r: "processSendMessage ?px (1 / 4) example_sendFn 0 =
      (Returned (Some example_envelope), px', [(d, DuplicateSend example_sendFn)], 1)"
    and d: "d = 50 + (1 / 4) * 200"
    by auto
  have "processSendMessage ?px (1 / 4) example_sendFn 0 =
     (Returned (Some example_envelope),
      bump_duplicated ((bump_sent ?px)\<lparr>random_state := 3239\<rparr>),
      [(100, DuplicateSend example_sendFn)], 1)"
    using r d h1 h2 h4
    by (simp add: processSendMessage_def Let_def split_beta bump_sent_def h3 cfg example_draws)
  then show ?thesis by (simp add: example_sendFn_def)
qed

section \<open>Determinism\<close>

text \<open>
  What a \<open>processSendMessage\<close> call returns, the proxy it leaves (counters, generator
  state, buffer), the world, and which timers it sets do not depend on the value of
  \<open>Math.random()\<close>; \<open>processReceiveMessage\<close> never reads it. Only the delay of a
  duplicate's timer does.
\<close>

lemma processSendMessage_ambient_independent:
  "fst (processSendMessage px u sendFn w) = fst (processSendMessage px u' sendFn w)
   \<and> fst (snd (processSendMessage px u sendFn w)) = fst (snd (processSendMessage px u' sendFn w))
   \<and> map seeded_part (fst (snd (snd (processSendMessage px u sendFn w)))) =
       map seeded_part (fst (snd (snd (processSendMessage px u' sendFn w))))
   \<and> snd (snd (snd (processSendMessage px u sendFn w))) =
       snd (snd (snd (processSendMessage px u' sendFn w)))"
  by (simp add: processSendMessage_def Let_def split_beta seeded_part_def
      split: prod.splits completion.splits)

text \<open>
  Two runs from the same proxy with the same calls agree on every result, on the final
  proxy, on the world, and on the timers up to the delays of the duplicates, whatever
  \<open>Math.random()\<close> returns in either: drop, duplicate, delay and reorder decisions,
  delivery delays and shuffles are functions of the seed and the calls.
\<close>

lemma run_call_ambient_independent:
  "fst (run_call px c u w) = fst (run_call px c u' w)
   \<and> fst (snd (run_call px c u w)) = fst (snd (run_call px c u' w))
   \<and> map seeded_part (fst (snd (snd (run_call px c u w)))) =
       map seeded_part (fst (snd (snd (run_call px c u' w))))
   \<and> snd (snd (snd (run_call px c u w))) = snd (snd (snd (run_call px c u' w)))"
proof (cases c)
  case (SendCall sendFn)
  show ?thesis
    using processSendMessage_ambient_independent [of px u sendFn w u']
    by (simp add: SendCall split_beta)
next
  case (ReceiveCall envelope handler)
  then show ?thesis by simp
qed

lemma run_calls_deterministic:
  assumes "map fst calls = map fst calls'"
  shows "fst (run_calls px calls w) = fst (run_calls px calls' w)
   \<and> fst (snd (run_calls px calls w)) = fst (snd (run_calls px calls' w))
   \<and> map seeded_part (fst (snd (snd (run_calls px calls w)))) =
       map seeded_part (fst (snd (snd (run_calls px calls' w))))
   \<and> snd (snd (snd (run_calls px calls w))) = snd (snd (snd (run_calls px calls' w)))"
  using assms
proof (induction calls arbitrary: calls' px w)
  case Nil
  then show ?case by simp
next
  case (Cons a calls)
  obtain c u where a: "a = (c, u)" by (cases a)
  from Cons.prems obtain u' rest where calls': "calls' = (c, u') # rest"
    and rest: "map fst calls = map fst rest"
    by (cases calls') (auto simp add: a)
  note step = run_call_ambient_independent [of px c u w u']
  obtain r px1 ts w1 where r1: "run_call px c u w = (r, px1, ts, w1)" by (metis prod_cases4)
  obtain r' px1' ts' w1' where r2: "run_call px c u' w = (r', px1', ts', w1')" by (metis prod_cases4)
  have eq: "r' = r" "px1' = px1" "map seeded_part ts' = map seeded_part ts" "w1' = w1"
    using step by (simp_all add: r1 r2)
  show ?case
    using Cons.IH [OF rest, of px1 w1] by (simp add: a calls' r1 r2 eq split_beta)
qed

text \<open>
  C1. The duplicate's delay does not come from the seeded generator. Two runs from the
  same seed and configuration with the same call differ in the delay of the duplicate
  as soon as \<open>Math.random()\<close> returns 0 in one and 0.5 in the other.
\<close>

theorem duplicate_delay_not_seeded:
  "snd (snd (processSendMessage (constructor always_duplicate_config) 0 example_sendFn 0)) =
     ([(50, DuplicateSend example_sendFn)], 1)
   \<and> snd (snd (processSendMessage (constructor always_duplicate_config) (1 / 2) example_sendFn 0)) =
     ([(150, DuplicateSend example_sendFn)], 1)"
  by (simp add: processSendMessage_def constructor_def always_duplicate_config_def no_config_def
      spread_def default_config_def createSeededRandom_def example_draws
      bump_sent_def Let_def example_sendFn_def)

section \<open>Receiving: the reorder buffer\<close>

text \<open>
  While the generator's state is not negative, every index \<open>j\<close> the shuffle draws lies
  in \<open>0..i\<close>, each step swaps two elements, and the result is a permutation of the
  buffer with no \<open>undefined\<close> in it.
\<close>

lemma shuffle_index_range:
  assumes "0 \<le> s"
  shows "0 \<le> \<lfloor>double (fst (seeded_random s) * (real (Suc k) + 1))\<rfloor>"
    and "\<lfloor>double (fst (seeded_random s) * (real (Suc k) + 1))\<rfloor> \<le> int (Suc k)"
proof -
  let ?d = "fst (seeded_random s)"
  have d: "0 \<le> ?d" using assms by (rule seeded_random_nonneg_draw)
  have "0 \<le> double (?d * (real (Suc k) + 1))"
    using d by (intro double_nonneg mult_nonneg_nonneg) simp_all
  thus "0 \<le> \<lfloor>double (?d * (real (Suc k) + 1))\<rfloor>" by simp
  have "double (?d * (real (Suc k) + 1)) < real (Suc k) + 1"
    using d by (intro scaled_draw_less) simp_all
  hence "\<lfloor>double (?d * (real (Suc k) + 1))\<rfloor> < int (Suc k) + 1"
    by (simp add: floor_less_iff)
  thus "\<lfloor>double (?d * (real (Suc k) + 1))\<rfloor> \<le> int (Suc k)" by simp
qed

lemma shuffle_loop_permutes:
  assumes "0 \<le> s" and "k < length xs"
  shows "\<exists>ys s'. shuffle_loop k (xs, ex) s = ((ys, ex), s') \<and> mset ys = mset xs \<and> 0 \<le> s'"
  using assms
proof (induction k arbitrary: xs s)
  case 0
  then show ?case by simp
next
  case (Suc k)
  let ?d = "fst (seeded_random s)" and ?s1 = "snd (seeded_random s)"
  let ?j = "\<lfloor>double (?d * (real (Suc k) + 1))\<rfloor>"
  let ?xs1 = "xs[Suc k := xs ! nat ?j, nat ?j := xs ! Suc k]"
  have j: "0 \<le> ?j" "nat ?j < length xs" "?j < int (length xs)"
    using shuffle_index_range [OF Suc.prems(1), of k] Suc.prems(2) by linarith+
  have n: "nat (1 + int k) = Suc k" by simp
  have step: "shuffle_loop (Suc k) (xs, ex) s = shuffle_loop k (?xs1, ex) ?s1"
    using j Suc.prems(2) by (simp add: Let_def split_beta array_get_def array_set_def n)
  have perm: "mset ?xs1 = mset xs"
    using j(2) Suc.prems(2) by (simp add: mset_swap)
  have "0 \<le> ?s1" using Suc.prems(1) by (rule seeded_random_nonneg_state)
  moreover have "k < length ?xs1" using Suc.prems(2) by simp
  ultimately obtain ys s' where "shuffle_loop k (?xs1, ex) ?s1 = ((ys, ex), s')"
    "mset ys = mset ?xs1" "0 \<le> s'"
    using Suc.IH by blast
  then show ?case using step perm by simp
qed

lemma permutation_of_defined:
  assumes "mset ys = mset (map Some xs)"
  shows "\<exists>sh. ys = map Some sh \<and> mset sh = mset xs"
proof -
  have "set ys = Some ` set xs" using assms by (metis mset_eq_setD set_map)
  then have "\<forall>y\<in>set ys. Some (the y) = y" by auto
  then have "map Some (map the ys) = ys"
    by (simp add: map_idI)
  moreover have "mset (map the ys) = mset xs"
  proof -
    have "mset (map the ys) = image_mset the (mset (map Some xs))"
      using assms by (metis mset_map)
    then show ?thesis by (simp add: image_mset.compositionality o_def)
  qed
  ultimately show ?thesis by metis
qed

lemma some_reordered_defined:
  assumes "length sh = length buf"
  shows "some_reordered (map Some sh) buf = Returned (map messageId sh \<noteq> map messageId buf)"
  using assms
proof (induction sh arbitrary: buf)
  case Nil
  then show ?case by simp
next
  case (Cons a sh)
  then obtain b buf' where "buf = b # buf'" by (cases buf) auto
  then show ?case using Cons by simp
qed

lemma calculateDelay_frame:
  "config (snd (calculateDelay px)) = config px"
  "stats (snd (calculateDelay px)) = stats px"
  "messageBuffer (snd (calculateDelay px)) = messageBuffer px"
  by (simp_all add: calculateDelay_def Let_def split_beta)

lemma calculateDelay_nonneg_state:
  "0 \<le> random_state px \<Longrightarrow> 0 \<le> random_state (snd (calculateDelay px))"
  using seeded_random_nonneg_state [of "random_state px"]
    seeded_random_nonneg_state [of "snd (seeded_random (random_state px))"]
  by (simp add: calculateDelay_def Let_def split_beta)

lemma deliver_all_conserves:
  assumes "\<forall>e v. fst (handler e v) = Returned ()"
  shows "\<exists>px' ts tr' w'.
           deliver_all (logging handler) es px (tr, w) = (Returned (), px', ts, (tr', w'))
           \<and> mset tr' + mset (scheduled ts) = mset tr + mset es
           \<and> config px' = config px \<and> messageBuffer px' = messageBuffer px
           \<and> reordered (stats px') = reordered (stats px)
           \<and> received (stats px') = received (stats px)
           \<and> delayed (stats px') = delayed (stats px) + length ts
           \<and> (\<forall>t\<in>set ts. 1 \<le> fst t)"
proof (induction es arbitrary: px tr w)
  case Nil
  then show ?case by (simp add: scheduled_def)
next
  case (Cons e es)
  let ?delay = "fst (calculateDelay px)" and ?px1 = "snd (calculateDelay px)"
  note frame = calculateDelay_frame [of px]
  show ?case
  proof (cases "?delay > 0")
    case True
    obtain px' ts tr' w' where IH:
      "deliver_all (logging handler) es (bump_delayed ?px1) (tr, w) = (Returned (), px', ts, (tr', w'))"
      "mset tr' + mset (scheduled ts) = mset tr + mset es"
      "config px' = config (bump_delayed ?px1)" "messageBuffer px' = messageBuffer (bump_delayed ?px1)"
      "reordered (stats px') = reordered (stats (bump_delayed ?px1))"
      "received (stats px') = received (stats (bump_delayed ?px1))"
      "delayed (stats px') = delayed (stats (bump_delayed ?px1)) + length ts"
      "\<forall>t\<in>set ts. 1 \<le> fst t"
      using Cons.IH [of "bump_delayed ?px1" tr w] by blast
    have "deliver_all (logging handler) (e # es) px (tr, w) =
        (Returned (), px', (real_of_int (max 1 ?delay), DelayedDelivery (logging handler) e) # ts,
         (tr', w'))"
      using True IH(1) by (simp add: split_beta)
    then show ?thesis
      using IH(2-8) frame by (simp add: scheduled_def bump_delayed_def)
  next
    case False
    obtain w1 where h: "handler e w = (Returned (), w1)"
      using assms by (metis prod.collapse)
    obtain px' ts tr' w' where IH:
      "deliver_all (logging handler) es ?px1 (tr @ [e], w1) = (Returned (), px', ts, (tr', w'))"
      "mset tr' + mset (scheduled ts) = mset (tr @ [e]) + mset es"
      "config px' = config ?px1" "messageBuffer px' = messageBuffer ?px1"
      "reordered (stats px') = reordered (stats ?px1)"
      "received (stats px') = received (stats ?px1)"
      "delayed (stats px') = delayed (stats ?px1) + length ts"
      "\<forall>t\<in>set ts. 1 \<le> fst t"
      using Cons.IH [of ?px1 "tr @ [e]" w1] by blast
    have "deliver_all (logging handler) (e # es) px (tr, w) = (Returned (), px', ts, (tr', w'))"
      using False IH(1) h by (simp add: split_beta logging_def)
    then show ?thesis using IH(2-8) frame by simp
  qed
qed


text \<open>
  A flush with a non-negative generator state, distinct message ids and a handler that
  completes: the handler is invoked or scheduled once per buffered envelope, in the
  order of the shuffle; the buffer is empty afterwards; \<open>reordered\<close> grows by the size
  of the batch if the shuffle changed the order and stays otherwise.
\<close>

lemma flush_conserves:
  assumes "0 \<le> random_state px" and "messageBuffer px \<noteq> []"
    and "distinct (map messageId (messageBuffer px))"
    and "\<forall>e v. fst (handler e v) = Returned ()"
  shows "\<exists>sh px' ts tr' w'.
           map Some sh = fst (fst (shuffle_loop (length (messageBuffer px) - 1)
                                    (map Some (messageBuffer px), \<lambda>j. None) (random_state px)))
           \<and> mset sh = mset (messageBuffer px)
           \<and> flushReorderBuffer (logging handler) px (tr, w) = (Returned (), px', ts, (tr', w'))
           \<and> messageBuffer px' = []
           \<and> mset tr' + mset (scheduled ts) = mset tr + mset (map Some (messageBuffer px))
           \<and> reordered (stats px') =
               reordered (stats px) + (if sh \<noteq> messageBuffer px then length (messageBuffer px) else 0)
           \<and> received (stats px') = received (stats px)
           \<and> delayed (stats px') = delayed (stats px) + length ts
           \<and> config px' = config px"
proof -
  let ?buf = "messageBuffer px"
  have len: "length ?buf - 1 < length (map Some ?buf)"
    using assms(2) by (cases ?buf) simp_all
  obtain ys s' where sl:
    "shuffle_loop (length ?buf - 1) (map Some ?buf, \<lambda>j. None) (random_state px) =
       ((ys, \<lambda>j. None), s')"
    "mset ys = mset (map Some ?buf)" "0 \<le> s'"
    using shuffle_loop_permutes [OF assms(1) len] by blast
  obtain sh where sh: "ys = map Some sh" "mset sh = mset ?buf"
    using permutation_of_defined [OF sl(2)] by blast
  have lsh: "length sh = length ?buf" using sh(2) by (metis size_mset)
  have "inj_on messageId (set sh \<union> set ?buf)"
    using assms(3) sh(2) by (metis distinct_map mset_eq_setD sup.idem)
  then have ids: "map messageId sh = map messageId ?buf \<longleftrightarrow> sh = ?buf"
    by (rule inj_on_map_eq_map)
  have sr: "some_reordered ys ?buf = Returned (sh \<noteq> ?buf)"
    using some_reordered_defined [OF lsh] ids by (simp add: sh(1))
  let ?px1 = "px\<lparr>random_state := s'\<rparr>"
  let ?px2 = "if sh \<noteq> ?buf then add_reordered (length ys) ?px1 else ?px1"
  obtain px3 ts tr' w' where d:
    "deliver_all (logging handler) ys ?px2 (tr, w) = (Returned (), px3, ts, (tr', w'))"
    "mset tr' + mset (scheduled ts) = mset tr + mset ys"
    "config px3 = config ?px2" "messageBuffer px3 = messageBuffer ?px2"
    "reordered (stats px3) = reordered (stats ?px2)"
    "received (stats px3) = received (stats ?px2)"
    "delayed (stats px3) = delayed (stats ?px2) + length ts"
    using deliver_all_conserves [OF assms(4), of ys ?px2 tr w] by blast
  have "flushReorderBuffer (logging handler) px (tr, w) =
      (Returned (), px3\<lparr>messageBuffer := []\<rparr>, ts, (tr', w'))"
  proof (cases "sh = ?buf")
    case True
    then have "deliver_all (logging handler) ys ?px1 (tr, w) = (Returned (), px3, ts, (tr', w'))"
      using d(1) by simp
    then show ?thesis
      using assms(2) sl(1) sr True by (simp add: flushReorderBuffer_def Let_def)
  next
    case False
    then have "deliver_all (logging handler) ys (add_reordered (length ys) ?px1) (tr, w) =
        (Returned (), px3, ts, (tr', w'))"
      using d(1) by simp
    then show ?thesis
      using assms(2) sl(1) sr False by (simp add: flushReorderBuffer_def Let_def)
  qed
  moreover have "length ys = length ?buf" using sh(1) lsh by simp
  ultimately show ?thesis
    using sl(1,2) sh d(2-7)
    by (intro exI [of _ sh] exI [of _ "px3\<lparr>messageBuffer := []\<rparr>"] exI [of _ ts]
        exI [of _ tr'] exI [of _ w'])
      (simp add: add_reordered_def)
qed

lemma receive_buffers:
  assumes "enabled (config px)"
    and "int (length (messageBuffer px) + length es) < reorderWindow (config px)"
  shows "\<exists>px'. receive_all px es handler w = (replicate (length es) (Returned ()), px', [], w)
           \<and> messageBuffer px' = messageBuffer px @ es
           \<and> config px' = config px \<and> random_state px' = random_state px
           \<and> stats px' = (stats px)\<lparr>received := received (stats px) + length es\<rparr>"
  using assms
proof (induction es arbitrary: px)
  case Nil
  then show ?case by simp
next
  case (Cons e es)
  let ?px1 = "(bump_received px)\<lparr>messageBuffer := messageBuffer px @ [e]\<rparr>"
  have step: "processReceiveMessage px e handler w = (Returned (), ?px1, [], w)"
    using Cons.prems by (simp add: processReceiveMessage_def Let_def bump_received_def)
  have "enabled (config ?px1)"
    "int (length (messageBuffer ?px1) + length es) < reorderWindow (config ?px1)"
    using Cons.prems by (simp_all add: bump_received_def)
  then obtain px' where IH:
    "receive_all ?px1 es handler w = (replicate (length es) (Returned ()), px', [], w)"
    "messageBuffer px' = messageBuffer ?px1 @ es"
    "config px' = config ?px1" "random_state px' = random_state ?px1"
    "stats px' = (stats ?px1)\<lparr>received := received (stats ?px1) + length es\<rparr>"
    using Cons.IH [of ?px1] by blast
  show ?case
    using IH by (intro exI [of _ px']) (simp add: step bump_received_def)
qed

lemma receive_all_append:
  "receive_all px (es @ [e]) handler w =
     (case receive_all px es handler w of
        (cs, px1, ts, w1) \<Rightarrow>
          (case processReceiveMessage px1 e handler w1 of
             (c, px2, ts', w2) \<Rightarrow> (cs @ [c], px2, ts @ ts', w2)))"
  by (induction es arbitrary: px w) (simp_all add: split_beta)

text \<open>
  Feeding exactly \<open>reorderWindow\<close> envelopes with distinct ids to a proxy with an empty
  buffer and a non-negative generator state: all calls but the last only buffer (no
  handler invocation, no timer), the last one flushes.
\<close>

lemma reorder_window_conserves:
  assumes "enabled (config px)" and "reorderWindow (config px) = int (length envs)"
    and "envs \<noteq> []" and "messageBuffer px = []" and "0 \<le> random_state px"
    and "distinct (map messageId envs)"
    and "\<forall>e v. fst (handler e v) = Returned ()"
  shows "\<exists>sh pxm px' ts tr' w'.
           receive_all px (butlast envs) (logging handler) ([], w) =
             (replicate (length envs - 1) (Returned ()), pxm, [], ([], w))
           \<and> messageBuffer pxm = butlast envs
           \<and> receive_all px envs (logging handler) ([], w) =
             (replicate (length envs) (Returned ()), px', ts, (tr', w'))
           \<and> map Some sh = fst (fst (shuffle_loop (length envs - 1)
                                    (map Some envs, \<lambda>j. None) (random_state px)))
           \<and> mset sh = mset envs
           \<and> mset tr' + mset (scheduled ts) = mset (map Some envs)
           \<and> messageBuffer px' = []
           \<and> reordered (stats px') =
               reordered (stats px) + (if sh \<noteq> envs then length envs else 0)
           \<and> received (stats px') = received (stats px) + length envs
           \<and> delayed (stats px') = delayed (stats px) + length ts"
proof -
  let ?es = "butlast envs" and ?e = "last envs"
  let ?h = "logging handler"
  have envs: "envs = ?es @ [?e]" using assms(3) by simp
  have l: "length ?es = length envs - 1" by simp
  have "int (length (messageBuffer px) + length ?es) < reorderWindow (config px)"
    using assms(2,3,4) by (cases envs) simp_all
  then obtain pxm where m:
    "receive_all px ?es ?h ([], w) = (replicate (length ?es) (Returned ()), pxm, [], ([], w))"
    "messageBuffer pxm = messageBuffer px @ ?es"
    "config pxm = config px" "random_state pxm = random_state px"
    "stats pxm = (stats px)\<lparr>received := received (stats px) + length ?es\<rparr>"
    using receive_buffers [OF assms(1), of ?es ?h "([], w)"] by blast
  let ?px2 = "(bump_received pxm)\<lparr>messageBuffer := messageBuffer pxm @ [?e]\<rparr>"
  have buf2: "messageBuffer ?px2 = envs" using m(2) assms(4) envs by simp
  have last_call: "processReceiveMessage pxm ?e ?h ([], w) = flushReorderBuffer ?h ?px2 ([], w)"
    using assms(1,2,3) m(3) buf2
    by (simp add: processReceiveMessage_def Let_def bump_received_def del: snoc_eq_iff_butlast)
  have pre: "0 \<le> random_state ?px2" "messageBuffer ?px2 \<noteq> []"
    "distinct (map messageId (messageBuffer ?px2))"
    using assms(3,5,6) m(4) buf2 by (simp_all add: bump_received_def)
  obtain sh px' ts tr' w' where f:
    "map Some sh = fst (fst (shuffle_loop (length (messageBuffer ?px2) - 1)
        (map Some (messageBuffer ?px2), \<lambda>j. None) (random_state ?px2)))"
    "mset sh = mset (messageBuffer ?px2)"
    "flushReorderBuffer ?h ?px2 ([], w) = (Returned (), px', ts, (tr', w'))"
    "messageBuffer px' = []"
    "mset tr' + mset (scheduled ts) = mset [] + mset (map Some (messageBuffer ?px2))"
    "reordered (stats px') =
       reordered (stats ?px2) + (if sh \<noteq> messageBuffer ?px2 then length (messageBuffer ?px2) else 0)"
    "received (stats px') = received (stats ?px2)"
    "delayed (stats px') = delayed (stats ?px2) + length ts"
    using flush_conserves [OF pre assms(7), of "[]" w] by blast
  have rs: "random_state ?px2 = random_state px" using m(4) by (simp add: bump_received_def)
  have st: "reordered (stats ?px2) = reordered (stats px)"
    "received (stats ?px2) = received (stats px) + length envs"
    "delayed (stats ?px2) = delayed (stats px)"
    using m(5) assms(3) by (simp_all add: bump_received_def)
  have "receive_all px (?es @ [?e]) ?h ([], w) =
      (replicate (length ?es) (Returned ()) @ [Returned ()], px', ts, (tr', w'))"
    unfolding receive_all_append by (simp add: m(1) last_call f(3))
  moreover have "replicate (length ?es) (Returned ()) @ [Returned ()] =
      replicate (length envs) (Returned () :: unit completion)"
    using assms(3) by (metis envs length_append_singleton replicate_Suc replicate_append_same)
  ultimately have all: "receive_all px envs ?h ([], w) =
      (replicate (length envs) (Returned ()), px', ts, (tr', w'))"
    using envs by metis
  have M1: "receive_all px ?es ?h ([], w) =
      (replicate (length envs - 1) (Returned ()), pxm, [], ([], w))"
    using m(1) unfolding l .
  have M2: "messageBuffer pxm = ?es" using m(2) assms(4) by simp
  have F1: "map Some sh = fst (fst (shuffle_loop (length envs - 1)
      (map Some envs, \<lambda>j. None) (random_state px)))"
    using f(1) unfolding buf2 rs .
  have F2: "mset sh = mset envs" using f(2) unfolding buf2 .
  have F5: "mset tr' + mset (scheduled ts) = mset (map Some envs)"
    using f(5) unfolding buf2 by simp
  have F6: "reordered (stats px') =
      reordered (stats px) + (if sh \<noteq> envs then length envs else 0)"
    using f(6) unfolding buf2 st .
  have F7: "received (stats px') = received (stats px) + length envs"
    using f(7) unfolding st .
  have F8: "delayed (stats px') = delayed (stats px) + length ts"
    using f(8) unfolding st .
  show ?thesis
    using M1 M2 all F1 F2 F5 f(4) F6 F7 F8 by blast
qed

text \<open>
  With the default seed 12345 and a window of 2, the shuffle swaps the two envelopes,
  \<open>reordered\<close> becomes 2, and both deliveries are delayed: the second envelope by 352
  ms, the first by 265 ms.
\<close>

lemma reorder_window_example:
  "receive_all (constructor window_2) [example_envelope, second_envelope]
       (logging (\<lambda>e w. (Returned (), w))) ([], ()) =
     ([Returned (), Returned ()],
      (constructor window_2)
        \<lparr>stats := \<lparr>sent = 0, received = 2, dropped = 0, duplicated = 0, delayed = 2, reordered = 2\<rparr>,
         random_state := 61850\<rparr>,
      [(352, DelayedDelivery (logging (\<lambda>e w. (Returned (), w))) (Some second_envelope)),
       (265, DelayedDelivery (logging (\<lambda>e w. (Returned (), w))) (Some example_envelope))],
      ([], ()))"
  by (simp add: processReceiveMessage_def flushReorderBuffer_def constructor_def
      window_2_def no_config_def spread_def default_config_def createSeededRandom_def
      example_draws literal_doubles round_even_def
      double_eval [where e = "- 1"] double_eval [where e = 8]
      bump_received_def bump_delayed_def add_reordered_def Let_def array_get_def array_set_def
      example_envelope_def second_envelope_def calculateDelay_def zero_stats_def)

text \<open>
  C8. The claim fails for a negative seed. With seed \<open>-6\<close> and \<open>reorderWindow = 2\<close>
  the second envelope triggers the flush; the draw is \<open>-6509/233280\<close> (rounded), so
  \<open>j = floor (d * 2) = -1\<close>, \<open>shuffled[1]\<close> becomes \<open>shuffled[-1]\<close>, which is
  \<open>undefined\<close>, and \<open>shuffled.some\<close> throws a TypeError on reading its
  \<open>messageId\<close>. The handler is not invoked, no timer is set, and the buffer still
  holds both envelopes.
\<close>

theorem flush_negative_seed_throws:
  "receive_all (constructor negative_seed_window) [example_envelope, second_envelope]
       (logging handler) ([], w) =
     ([Returned (), Thrown TypeError],
      (bump_received (bump_received (constructor negative_seed_window)))
        \<lparr>messageBuffer := [example_envelope, second_envelope], random_state := - 6509\<rparr>,
      [], ([], w))"
  by (simp add: processReceiveMessage_def flushReorderBuffer_def constructor_def
      negative_seed_window_def no_config_def spread_def default_config_def createSeededRandom_def
      negative_seed_draw round_even_def double_eval [where e = "- 5"]
      bump_received_def Let_def array_get_def array_set_def
      example_envelope_def second_envelope_def)

end
